theory Spec2Isabelle
  imports
    Complex_Main
    "HOL-Library.Char_ord"
    "HOL-Library.List_Lexorder"
    "HOL-Library.Product_Lexorder"
    "HOL-Library.Multiset"
    "HOL-Library.AList"
begin

unbundle bit_operations_syntax

section \<open>Events, tuple order and the heap queue\<close>

text \<open>
  All three programs (acid2midi.py, speedcore2midi.py, acidtrack.py) store an event as the
  Python tuple \<open>(tick, device, action, value, param)\<close>. Python compares tuples
  lexicographically, strings by code point and integers by value; the instances of
  \<open>Char_ord\<close>, \<open>List_Lexorder\<close> and \<open>Product_Lexorder\<close> give the nested pair exactly that
  order. Ticks start at 0 and are only ever incremented, so they are naturals; values and
  parameters are Python integers.
\<close>

type_synonym event = "nat \<times> string \<times> string \<times> int \<times> int"

text \<open>An entry of \<open>char_timing\<close>: \<open>(current_time, i, ch)\<close>.\<close>

type_synonym char_entry = "nat \<times> nat \<times> char"

definition ev_tick :: "event \<Rightarrow> nat" where
  "ev_tick e = fst e"

definition ev_device :: "event \<Rightarrow> string" where
  "ev_device e = fst (snd e)"

definition ev_action :: "event \<Rightarrow> string" where
  "ev_action e = fst (snd (snd e))"

definition ev_value :: "event \<Rightarrow> int" where
  "ev_value e = fst (snd (snd (snd e)))"

definition ev_param :: "event \<Rightarrow> int" where
  "ev_param e = snd (snd (snd (snd e)))"

text \<open>
  \<open>heapq.heappush(heap, item)\<close> of the standard library: append the item, then sift it
  towards the root while it is smaller than its parent (\<open>_siftdown(heap, 0, len(heap)-1)\<close>).
\<close>

function siftdown :: "'a::linorder list \<Rightarrow> nat \<Rightarrow> nat \<Rightarrow> 'a \<Rightarrow> 'a list" where
  "siftdown heap startpos pos newitem =
     (if pos > startpos then
        (let parentpos = (pos - 1) div 2;
             parent = heap ! parentpos
         in if newitem < parent then siftdown (heap[pos := parent]) startpos parentpos newitem
            else heap[pos := newitem])
      else heap[pos := newitem])"
  by pat_completeness auto
termination
  by (relation "measure (\<lambda>(heap, startpos, pos, newitem). pos)") auto

declare siftdown.simps [simp del]

definition heappush :: "'a::linorder list \<Rightarrow> 'a \<Rightarrow> 'a list" where
  "heappush heap item = siftdown (heap @ [item]) 0 (length heap) item"

text \<open>Pushing a list of items one after the other, first item first.\<close>

definition push_all :: "'a::linorder list \<Rightarrow> 'a list \<Rightarrow> 'a list" where
  "push_all heap items = foldl heappush heap items"

section \<open>The random generator\<close>

text \<open>
  The programs draw from the process-wide generator of Python's \<open>random\<close> module, which
  is not part of the repository. It is a parameter here: a state type \<open>'g\<close> and the four
  operations the programs call. \<open>rnd_random\<close> returns the float drawn from \<open>[0, 1)\<close> as the
  rational it denotes. The state before a call of the mapper is an argument of the model,
  because the module's state is global.
\<close>

record 'g rand =
  rnd_seed :: "string \<Rightarrow> 'g"
  rnd_seed_int :: "int \<Rightarrow> 'g"
  rnd_random :: "'g \<Rightarrow> rat \<times> 'g"
  rnd_randint :: "int \<Rightarrow> int \<Rightarrow> 'g \<Rightarrow> int \<times> 'g"

text \<open>The doubles that the float literals of the sources denote.\<close>

definition f0_6 :: rat where "f0_6 = 5404319552844595 / 9007199254740992"
definition f0_7 :: rat where "f0_7 = 3152519739159347 / 4503599627370496"
definition f0_8 :: rat where "f0_8 = 3602879701896397 / 4503599627370496"
definition f0_4 :: rat where "f0_4 = 3602879701896397 / 9007199254740992"

section \<open>Strings\<close>

text \<open>
  A text is a \<open>string\<close>: one \<open>char\<close> per character, code points below 256. \<open>str.lower()\<close>
  on such a character changes the ASCII capitals and the Latin-1 capitals (all but the
  multiplication sign) by 32.
\<close>

definition lower :: "char \<Rightarrow> char" where
  "lower c =
     (let n = of_char c :: nat
      in if (65 \<le> n \<and> n \<le> 90) \<or> (192 \<le> n \<and> n \<le> 222 \<and> n \<noteq> 215)
         then char_of (n + 32) else c)"

text \<open>
  \<open>s.index(c)\<close>: the position of the first occurrence. Python raises ValueError for an
  absent character; every call in the sources stands under the test \<open>c in s\<close>
  (lemma \<open>index_of_found\<close>), and for an absent character this function returns the length.
\<close>

fun index_of :: "string \<Rightarrow> char \<Rightarrow> nat" where
  "index_of [] c = 0"
| "index_of (x # xs) c = (if x = c then 0 else Suc (index_of xs c))"

text \<open>\<open>int(c)\<close> for a character that passed the test \<open>c in DIGITS\<close>.\<close>

definition digit_value :: "char \<Rightarrow> nat" where
  "digit_value c = of_char c - 48"

section \<open>acid2midi.py: the symbol mapper\<close>

definition ENCODABLE :: string where
  "ENCODABLE = ''etaoinshrdlucmfwypvbgkqjxz0123456789''"

definition VOWELS :: string where
  "VOWELS = ''aeiou''"

definition DIGITS :: string where
  "DIGITS = ''0123456789''"

definition PUNCTUATION :: string where
  "PUNCTUATION = ''.,''"

definition VOWEL_ORDER :: string where
  "VOWEL_ORDER = ''aeiou''"

definition CONSONANT_ORDER :: string where
  "CONSONANT_ORDER = ''tnshrdlucmfwypvbgkqjxz''"

definition NOTE_BASE :: int where
  "NOTE_BASE = 48"

definition OCTAVE :: int where
  "OCTAVE = 12"

definition MINOR_PENTATONIC :: "int list" where
  "MINOR_PENTATONIC = [0, 3, 5, 7, 10]"

definition PAD_CHORD_NOTES :: "int list" where
  "PAD_CHORD_NOTES = [0, 3, 7]"

definition DRUM_NOTES :: "(string \<times> int) list" where
  "DRUM_NOTES =
     [(''kick'', 48), (''snare'', 50), (''ltom'', 52), (''htom'', 53), (''rim'', 55),
      (''clap'', 57), (''ch'', 59), (''oh'', 60), (''crash'', 62), (''ride'', 64)]"

text \<open>\<open>DRUM_NOTES[name]\<close>; every call passes a key of the table.\<close>

definition drum_note :: "string \<Rightarrow> int" where
  "drum_note name = the (map_of DRUM_NOTES name)"

text \<open>The expression \<open>min(max(note, 0), 127)\<close> the mappers apply to every computed pitch.\<close>

definition clamp :: "int \<Rightarrow> int" where
  "clamp note = min (max note 0) 127"

text \<open>
  The pitch of the bass line: \<open>NOTE_BASE + MINOR_PENTATONIC[rank % len(MINOR_PENTATONIC)]\<close>,
  clamped.
\<close>

definition bass_note :: "nat \<Rightarrow> int" where
  "bass_note rank =
     clamp (NOTE_BASE + MINOR_PENTATONIC ! (rank mod length MINOR_PENTATONIC))"

text \<open>
  One iteration of the loop of \<open>text_to_event_queue\<close> (acid2midi.py) for the character
  \<open>ch\<close> at position \<open>i\<close>: the events it pushes, in the order of the \<open>heappush\<close> calls, the
  entries it appends to \<open>char_timing\<close>, the new \<open>current_time\<close> and the new generator
  state.
\<close>

definition acid_bass :: "'g rand \<Rightarrow> char \<Rightarrow> nat \<Rightarrow> 'g \<Rightarrow> event list \<times> 'g" where
  "acid_bass R ch_lower current_time g =
     (if ch_lower \<in> set VOWELS then
        (let rank = index_of VOWEL_ORDER ch_lower;
             note = bass_note rank;
             velocity = 80;
             (r, g1) = rnd_random R g;
             duration = (if r < f0_6 then 2 else 1)
         in ([(current_time, ''TB303'', ''on'', note, velocity),
              (current_time + duration, ''TB303'', ''off'', note, 0)] @
             (if duration > 1
              then [(current_time, ''TB303'', ''cc'', 5, 127),
                    (current_time + duration, ''TB303'', ''cc'', 5, 0)]
              else []), g1))
      else if ch_lower \<in> set DIGITS then
        (let rank = digit_value ch_lower;
             note = bass_note rank;
             velocity = 70
         in ([(current_time, ''TB303'', ''on'', note, velocity),
              (current_time + 1, ''TB303'', ''off'', note, 0)], g))
      else if ch_lower \<in> set CONSONANT_ORDER then
        (let rank = index_of CONSONANT_ORDER ch_lower;
             note = bass_note rank;
             velocity = 100
         in ([(current_time, ''TB303'', ''on'', note, velocity),
              (current_time + 1, ''TB303'', ''off'', note, 0),
              (current_time, ''TB303'', ''cc'', 71, 80)], g))
      else ([], g))"

definition acid_drums :: "nat \<Rightarrow> char \<Rightarrow> nat \<Rightarrow> event list" where
  "acid_drums i ch_lower current_time =
     (if ch_lower \<in> set VOWELS then
        [(current_time, ''BP909'', ''on'', drum_note ''kick'', 100),
         (current_time + 1, ''BP909'', ''off'', drum_note ''kick'', 0)]
      else if ch_lower \<in> set DIGITS then
        [(current_time, ''BP909'', ''on'', drum_note ''oh'', 80),
         (current_time + 1, ''BP909'', ''off'', drum_note ''oh'', 0)]
      else if ch_lower \<in> set CONSONANT_ORDER then
        (let drum = (if i mod 4 = 2 then ''snare'' else if i mod 4 = 0 then ''clap'' else ''ch'');
             velocity = (if drum \<in> set [''snare'', ''clap''] then 90 else 70)
         in [(current_time, ''BP909'', ''on'', drum_note drum, velocity),
             (current_time + 1, ''BP909'', ''off'', drum_note drum, 0)])
      else [])"

definition acid_pad :: "nat \<Rightarrow> event list" where
  "acid_pad current_time =
     (let chord_root = NOTE_BASE + MINOR_PENTATONIC ! 0 + OCTAVE
      in concat (map (\<lambda>offset.
           (let note = clamp (chord_root + offset)
            in [(current_time, ''PadSynth'', ''on'', note, 60),
                (current_time + 4, ''PadSynth'', ''off'', note, 0)])) PAD_CHORD_NOTES))"

definition acid_char ::
  "'g rand \<Rightarrow> nat \<Rightarrow> char \<Rightarrow> nat \<Rightarrow> 'g \<Rightarrow> event list \<times> char_entry list \<times> nat \<times> 'g" where
  "acid_char R i ch current_time g =
     (let ch_lower = lower ch
      in if ch = CHR '' '' \<or> ch_lower \<in> set PUNCTUATION then
           ((current_time, ''TB303'', ''cc'', 71, 60) # acid_pad current_time,
            [(current_time, i, ch)], current_time + 1, g)
         else if ch_lower \<notin> set ENCODABLE then
           ([], [(current_time, i, ch)], current_time, g)
         else
           (let (bass, g1) = acid_bass R ch_lower current_time g;
                drums = acid_drums i ch_lower current_time
            in (bass @ drums, [(current_time, i, ch)], current_time + 1, g1)))"

text \<open>
  The loop over \<open>enumerate(text)\<close>, from position \<open>i\<close> on. The state is
  \<open>(event_queue, char_timing, current_time, generator)\<close>.
\<close>

fun acid_loop ::
  "'g rand \<Rightarrow> nat \<Rightarrow> string \<Rightarrow> event list \<times> char_entry list \<times> nat \<times> 'g
     \<Rightarrow> event list \<times> char_entry list \<times> nat \<times> 'g" where
  "acid_loop R i [] st = st"
| "acid_loop R i (ch # rest) (event_queue, char_timing, current_time, g) =
     (let (pushed, timing, current_time', g') = acid_char R i ch current_time g
      in acid_loop R (Suc i) rest
           (push_all event_queue pushed, char_timing @ timing, current_time', g'))"

text \<open>
  \<open>text_to_event_queue(text)\<close> of acid2midi.py. \<open>g0\<close> is the state of the global generator
  when the function is called; \<open>random.seed(text)\<close> replaces it. The result is the pair
  the function returns, \<open>sorted(event_queue)\<close> and \<open>char_timing\<close> sorted by position
  (a stable sort), together with the generator state it leaves behind.
\<close>

definition acid_text_to_event_queue ::
  "'g rand \<Rightarrow> 'g \<Rightarrow> string \<Rightarrow> (event list \<times> char_entry list) \<times> 'g" where
  "acid_text_to_event_queue R g0 text =
     (let g = rnd_seed R text;
          (event_queue, char_timing, current_time, g') = acid_loop R 0 text ([], [], 0, g)
      in ((sort event_queue, sort_key (\<lambda>x. fst (snd x)) char_timing), g'))"

section \<open>speedcore2midi.py: the symbol mapper\<close>

text \<open>
  The character sets, \<open>NOTE_BASE\<close>, \<open>OCTAVE\<close>, the scale, the chord and \<open>DRUM_NOTES\<close> are the
  same as in acid2midi.py. \<open>SAMPLES = set("@,")\<close> is new, and
  \<open>SAMPLE_NOTES = {char: 0 + i for i, char in enumerate(SAMPLES)}\<close> numbers its two members
  in the iteration order of a Python set of strings, which the interpreter fixes once per
  process. That order is the parameter \<open>order\<close> (\<open>''@,''\<close> or \<open>'',@''\<close>).
\<close>

definition SAMPLES :: string where
  "SAMPLES = ''@,''"

definition SAMPLE_NOTES :: "string \<Rightarrow> (char \<times> int) list" where
  "SAMPLE_NOTES order = zip order (map int [0..<length order])"

text \<open>\<open>SAMPLE_NOTES[ch]\<close>, called under the test \<open>ch in SAMPLES\<close>.\<close>

definition sample_note :: "string \<Rightarrow> char \<Rightarrow> int" where
  "sample_note order ch = the (map_of (SAMPLE_NOTES order) ch)"

text \<open>
  The loop \<open>for offset in PAD_CHORD_NOTES\<close> of the separator branch: a detuned note and a
  velocity are drawn for each chord tone.
\<close>

fun speed_pad :: "'g rand \<Rightarrow> int \<Rightarrow> nat \<Rightarrow> int list \<Rightarrow> 'g \<Rightarrow> event list \<times> 'g" where
  "speed_pad R chord_root current_time [] g = ([], g)"
| "speed_pad R chord_root current_time (offset # offsets) g =
     (let (detune, g1) = rnd_randint R (- 2) 2 g;
          note = clamp (chord_root + offset + detune);
          (velocity, g2) = rnd_randint R 60 90 g1;
          (rest, g3) = speed_pad R chord_root current_time offsets g2
      in ([(current_time, ''PadSynth'', ''on'', note, velocity),
           (current_time + 1, ''PadSynth'', ''off'', note, 0)] @ rest, g3))"

definition speed_separator :: "'g rand \<Rightarrow> nat \<Rightarrow> 'g \<Rightarrow> event list \<times> 'g" where
  "speed_separator R current_time g =
     (let (sweep, g1) = rnd_randint R 80 127 g;
          chord_root = NOTE_BASE + MINOR_PENTATONIC ! 0 + OCTAVE;
          (pad, g2) = speed_pad R chord_root current_time PAD_CHORD_NOTES g1;
          (crash, g3) = rnd_randint R 90 127 g2
      in ((current_time, ''TB303'', ''cc'', 74, sweep) # pad @
          [(current_time, ''BP909'', ''on'', drum_note ''crash'', crash),
           (current_time + 1, ''BP909'', ''off'', drum_note ''crash'', 0)], g3))"

definition speed_bass :: "'g rand \<Rightarrow> char \<Rightarrow> nat \<Rightarrow> 'g \<Rightarrow> event list \<times> 'g" where
  "speed_bass R ch_lower current_time g =
     (if ch_lower \<in> set VOWELS then
        (let rank = index_of VOWEL_ORDER ch_lower;
             note = bass_note rank;
             (velocity, g1) = rnd_randint R 80 127 g;
             (r, g2) = rnd_random R g1;
             duration = (if r < f0_6 then 2 else 1);
             (sweep, g3) = rnd_randint R 60 127 g2
         in ([(current_time, ''TB303'', ''on'', note, velocity),
              (current_time + duration, ''TB303'', ''off'', note, 0)] @
             (if duration > 1
              then [(current_time, ''TB303'', ''cc'', 5, 127),
                    (current_time + duration, ''TB303'', ''cc'', 5, 0)]
              else []) @
             [(current_time, ''TB303'', ''cc'', 74, sweep)], g3))
      else if ch_lower \<in> set DIGITS then
        (let rank = digit_value ch_lower;
             note = bass_note rank;
             (velocity, g1) = rnd_randint R 70 110 g;
             duration = 1
         in ([(current_time, ''TB303'', ''on'', note, velocity),
              (current_time + duration, ''TB303'', ''off'', note, 0)], g1))
      else if ch_lower \<in> set CONSONANT_ORDER then
        (let rank = index_of CONSONANT_ORDER ch_lower;
             note = bass_note rank;
             (velocity, g1) = rnd_randint R 100 127 g;
             duration = 1;
             (resonance, g2) = rnd_randint R 80 127 g1
         in ([(current_time, ''TB303'', ''on'', note, velocity),
              (current_time + duration, ''TB303'', ''off'', note, 0),
              (current_time, ''TB303'', ''cc'', 71, resonance)], g2))
      else ([], g))"

text \<open>The kick on every character and the hi-hat that follows it with probability 0.7.\<close>

definition speed_kick_hat :: "'g rand \<Rightarrow> nat \<Rightarrow> 'g \<Rightarrow> event list \<times> 'g" where
  "speed_kick_hat R current_time g =
     (let (kick, g1) = rnd_randint R 100 127 g;
          (r, g2) = rnd_random R g1;
          (hat, g3) =
            (if r < f0_7 then
               (let (r', g21) = rnd_random R g2;
                    drum = (if r' < f0_8 then ''ch'' else ''oh'');
                    (velocity, g22) = rnd_randint R 60 90 g21
                in ([(current_time, ''BP909'', ''on'', drum_note drum, velocity),
                     (current_time + 1, ''BP909'', ''off'', drum_note drum, 0)], g22))
             else ([], g2))
      in ([(current_time, ''BP909'', ''on'', drum_note ''kick'', kick),
           (current_time + 1, ''BP909'', ''off'', drum_note ''kick'', 0)] @ hat, g3))"

definition speed_drums :: "'g rand \<Rightarrow> nat \<Rightarrow> char \<Rightarrow> nat \<Rightarrow> 'g \<Rightarrow> event list \<times> 'g" where
  "speed_drums R i ch_lower current_time g =
     (if ch_lower \<in> set VOWELS then
        (let (velocity, g1) = rnd_randint R 100 127 g
         in ([(current_time, ''BP909'', ''on'', drum_note ''kick'', velocity),
              (current_time + 1, ''BP909'', ''off'', drum_note ''kick'', 0)], g1))
      else if ch_lower \<in> set DIGITS then
        (let (velocity, g1) = rnd_randint R 60 90 g
         in ([(current_time, ''BP909'', ''on'', drum_note ''oh'', velocity),
              (current_time + 1, ''BP909'', ''off'', drum_note ''oh'', 0)], g1))
      else if ch_lower \<in> set CONSONANT_ORDER then
        (let drum = (if i mod 4 = 2 then ''snare'' else if i mod 4 = 0 then ''clap'' else ''rim'');
             velocity = (if drum \<in> set [''snare'', ''clap''] then 90 else 70);
             (v, g1) = rnd_randint R velocity 127 g
         in ([(current_time, ''BP909'', ''on'', drum_note drum, v),
              (current_time + 1, ''BP909'', ''off'', drum_note drum, 0)], g1))
      else ([], g))"

definition speed_lead :: "'g rand \<Rightarrow> char \<Rightarrow> nat \<Rightarrow> 'g \<Rightarrow> event list \<times> 'g" where
  "speed_lead R ch_lower current_time g =
     (if ch_lower \<in> set VOWELS then
        (let (r, g1) = rnd_random R g
         in if r < f0_4 then
              (let rank = index_of VOWEL_ORDER ch_lower;
                   scale_degree = MINOR_PENTATONIC ! (rank mod length MINOR_PENTATONIC);
                   note = clamp (NOTE_BASE + scale_degree + OCTAVE * 2);
                   (velocity, g2) = rnd_randint R 80 127 g1;
                   duration = 1
               in ([(current_time, ''LeadSynth'', ''on'', note, velocity),
                    (current_time + duration, ''LeadSynth'', ''off'', note, 0),
                    (current_time, ''LeadSynth'', ''cc'', 71, 127)], g2))
            else ([], g1))
      else ([], g))"

text \<open>One iteration of the loop of \<open>text_to_event_queue\<close> (speedcore2midi.py).\<close>

definition speed_char ::
  "'g rand \<Rightarrow> string \<Rightarrow> nat \<Rightarrow> char \<Rightarrow> nat \<Rightarrow> 'g
     \<Rightarrow> event list \<times> char_entry list \<times> nat \<times> 'g" where
  "speed_char R order i ch current_time g =
     (let ch_lower = lower ch
      in if ch \<in> set SAMPLES then
           (let note = clamp (sample_note order ch);
                (velocity, g1) = rnd_randint R 127 127 g
            in ([(current_time, ''Samples'', ''on'', note, velocity)],
                [(current_time, i, ch)], current_time + 1, g1))
         else if ch = CHR '' '' \<or> ch_lower \<in> set PUNCTUATION then
           (let (pushed, g1) = speed_separator R current_time g
            in (pushed, [(current_time, i, ch)], current_time + 1, g1))
         else if ch_lower \<notin> set ENCODABLE then
           ([], [], current_time + 1, g)
         else
           (let (bass, g1) = speed_bass R ch_lower current_time g;
                (kick_hat, g2) = speed_kick_hat R current_time g1;
                (drums, g3) = speed_drums R i ch_lower current_time g2;
                (lead, g4) = speed_lead R ch_lower current_time g3
            in (bass @ kick_hat @ drums @ lead, [(current_time, i, ch)],
                current_time + 1, g4)))"

fun speed_loop ::
  "'g rand \<Rightarrow> string \<Rightarrow> nat \<Rightarrow> string \<Rightarrow> event list \<times> char_entry list \<times> nat \<times> 'g
     \<Rightarrow> event list \<times> char_entry list \<times> nat \<times> 'g" where
  "speed_loop R order i [] st = st"
| "speed_loop R order i (ch # rest) (event_queue, char_timing, current_time, g) =
     (let (pushed, timing, current_time', g') = speed_char R order i ch current_time g
      in speed_loop R order (Suc i) rest
           (push_all event_queue pushed, char_timing @ timing, current_time', g'))"

text \<open>\<open>text_to_event_queue(text)\<close> of speedcore2midi.py, read as the one of acid2midi.py.\<close>

definition speed_text_to_event_queue ::
  "'g rand \<Rightarrow> string \<Rightarrow> 'g \<Rightarrow> string \<Rightarrow> (event list \<times> char_entry list) \<times> 'g" where
  "speed_text_to_event_queue R order g0 text =
     (let g = rnd_seed R text;
          (event_queue, char_timing, current_time, g') =
            speed_loop R order 0 text ([], [], 0, g)
      in ((sort event_queue, sort_key (\<lambda>x. fst (snd x)) char_timing), g'))"

section \<open>acidtrack.py: the pattern generator\<close>

definition BARS :: nat where
  "BARS = 32"

definition BEATS_PER_BAR :: nat where
  "BEATS_PER_BAR = 4"

definition TICKS_PER_BEAT :: nat where
  "TICKS_PER_BEAT = 4"

text \<open>acidtrack.py sets \<open>NOTE_BASE = 36\<close> and has its own \<open>SAMPLE_NOTES\<close>, keyed by name.\<close>

definition track_NOTE_BASE :: int where
  "track_NOTE_BASE = 36"

definition track_SAMPLE_NOTES :: "(string \<times> int) list" where
  "track_SAMPLE_NOTES = [(''vocal1'', 48), (''vocal2'', 50), (''riser'', 52), (''sweep'', 53)]"

definition track_sample_note :: "string \<Rightarrow> int" where
  "track_sample_note name = the (map_of track_SAMPLE_NOTES name)"

definition f0_95 :: rat where "f0_95 = 4278419646001971 / 4503599627370496"
definition f0_2 :: rat where "f0_2 = 3602879701896397 / 18014398509481984"
definition f0_3 :: rat where "f0_3 = 5404319552844595 / 18014398509481984"
definition f0_5 :: rat where "f0_5 = 1 / 2"

text \<open>
  A \<open>for\<close> loop whose body pushes events and draws from the generator: the events of all
  iterations in push order, and the generator state after the last one.
\<close>

fun for_each :: "('a \<Rightarrow> 'g \<Rightarrow> event list \<times> 'g) \<Rightarrow> 'a list \<Rightarrow> 'g \<Rightarrow> event list \<times> 'g" where
  "for_each body [] g = ([], g)"
| "for_each body (x # xs) g =
     (let (pushed, g1) = body x g;
          (rest, g2) = for_each body xs g1
      in (pushed @ rest, g2))"

definition start_tick :: "nat \<Rightarrow> nat" where
  "start_tick bar = bar * BEATS_PER_BAR * TICKS_PER_BEAT"

text \<open>TB303: the body of \<open>for i in range(8)\<close>.\<close>

definition track_tb303_step :: "'g rand \<Rightarrow> nat \<Rightarrow> nat \<Rightarrow> 'g \<Rightarrow> event list \<times> 'g" where
  "track_tb303_step R bar i g =
     (let pattern = (if bar mod 2 = 0 then [0, 3, 5, 0, 7, 10, 3, 5]
                     else [0, 5, 10, 0, 3, 7, 5, 3 :: nat]);
          tick = start_tick bar + i * 2;
          (r, g1) = rnd_random R g
      in if r < f0_95 then
           (let note = clamp (track_NOTE_BASE +
                         MINOR_PENTATONIC ! ((pattern ! i) mod length MINOR_PENTATONIC));
                (d, g2) = rnd_randint R (- 10) 10 g1;
                velocity = 90 + d;
                (r2, g3) = rnd_random R g2;
                duration = (if r2 < f0_7 then 3 else 2);
                (r3, g4) = rnd_random R g3;
                (resonance, g5) = rnd_randint R 0 40 g4;
                (cutoff, g6) = rnd_randint R 0 50 g5
            in ([(tick, ''TB303'', ''on'', note, velocity),
                 (tick + duration, ''TB303'', ''off'', note, 0),
                 (tick, ''TB303'', ''cc'', 5, if r3 < f0_8 then 127 else 0),
                 (tick + duration, ''TB303'', ''cc'', 5, 0),
                 (tick, ''TB303'', ''cc'', 71, 80 + resonance),
                 (tick, ''TB303'', ''cc'', 74, 60 + cutoff)], g6))
         else ([], g1))"

definition track_tb303 :: "'g rand \<Rightarrow> 'g \<Rightarrow> event list \<times> 'g" where
  "track_tb303 R g =
     for_each (\<lambda>bar. for_each (track_tb303_step R bar) [0..<8]) [0..<BARS] g"

text \<open>BassSub: no draws.\<close>

definition track_basssub :: "event list" where
  "track_basssub =
     concat (map (\<lambda>bar.
       if bar \<ge> 2 then
         concat (map (\<lambda>beat.
           (let tick = start_tick bar + beat * TICKS_PER_BEAT;
                note = track_NOTE_BASE - OCTAVE
            in [(tick, ''BassSub'', ''on'', note, 100),
                (tick + 2, ''BassSub'', ''off'', note, 0)])) [0..<4])
       else []) [0..<BARS])"

text \<open>BP909: the four closed hi-hats of a beat, \<open>for i in range(4)\<close>.\<close>

definition track_hat :: "'g rand \<Rightarrow> nat \<Rightarrow> nat \<Rightarrow> 'g \<Rightarrow> event list \<times> 'g" where
  "track_hat R tick i g =
     (let htick = tick + i;
          (d, g1) = rnd_randint R (- 10) 10 g
      in ([(htick, ''BP909'', ''on'', drum_note ''ch'', 70 + d),
           (htick + 1, ''BP909'', ''off'', drum_note ''ch'', 0)], g1))"

text \<open>BP909: the body of \<open>for beat in range(4)\<close>.\<close>

definition track_bp909_beat :: "'g rand \<Rightarrow> nat \<Rightarrow> nat \<Rightarrow> 'g \<Rightarrow> event list \<times> 'g" where
  "track_bp909_beat R bar beat g =
     (let tick = start_tick bar + beat * TICKS_PER_BEAT;
          kick = [(tick, ''BP909'', ''on'', drum_note ''kick'', 100),
                  (tick + 1, ''BP909'', ''off'', drum_note ''kick'', 0)];
          (r, g1) = rnd_random R g;
          offbeat = (if r < f0_2 \<and> beat mod 2 = 1
                     then [(tick + 2, ''BP909'', ''on'', drum_note ''kick'', 80),
                           (tick + 3, ''BP909'', ''off'', drum_note ''kick'', 0)]
                     else []);
          snare = (if beat mod 2 = 1
                   then [(tick, ''BP909'', ''on'', drum_note ''snare'', 90),
                         (tick + 1, ''BP909'', ''off'', drum_note ''snare'', 0)]
                   else []);
          clap = (if beat mod 2 = 1 \<and> bar \<ge> 4
                  then [(tick + 2, ''BP909'', ''on'', drum_note ''clap'', 85),
                        (tick + 3, ''BP909'', ''off'', drum_note ''clap'', 0)]
                  else []);
          (hats, g2) = for_each (track_hat R tick) [0..<4] g1;
          oh = (if beat mod 2 = 1
                then [(tick + 2, ''BP909'', ''on'', drum_note ''oh'', 80),
                      (tick + 3, ''BP909'', ''off'', drum_note ''oh'', 0)]
                else []);
          (toms, g3) =
            (if bar \<ge> 8 then
               (let (r2, g21) = rnd_random R g2
                in if r2 < f0_3 then
                     (let (r3, g22) = rnd_random R g21;
                          tom = (if r3 < f0_5 then ''ltom'' else ''htom'')
                      in ([(tick + 3, ''BP909'', ''on'', drum_note tom, 80),
                           (tick + 4, ''BP909'', ''off'', drum_note tom, 0)], g22))
                   else ([], g21))
             else ([], g2));
          (rim, g4) =
            (if bar \<ge> 12 then
               (let (r4, g31) = rnd_random R g3
                in if r4 < f0_2 then
                     ([(tick + 1, ''BP909'', ''on'', drum_note ''rim'', 75),
                       (tick + 2, ''BP909'', ''off'', drum_note ''rim'', 0)], g31)
                   else ([], g31))
             else ([], g3));
          crash = (if beat = 0 \<and> bar mod 4 = 0
                   then [(tick, ''BP909'', ''on'', drum_note ''crash'', 90),
                         (tick + 2, ''BP909'', ''off'', drum_note ''crash'', 0)]
                   else [])
      in (kick @ offbeat @ snare @ clap @ hats @ oh @ toms @ rim @ crash, g4))"

definition track_bp909 :: "'g rand \<Rightarrow> 'g \<Rightarrow> event list \<times> 'g" where
  "track_bp909 R g =
     for_each (\<lambda>bar. for_each (track_bp909_beat R bar) [0..<4]) [0..<BARS] g"

text \<open>
  LeadSynth: the body of \<open>for beat in [0, 2]\<close>. The index \<open>random.randint(0, 4)\<close> is one of
  0 to 4.
\<close>

definition track_lead_beat :: "'g rand \<Rightarrow> nat \<Rightarrow> nat \<Rightarrow> 'g \<Rightarrow> event list \<times> 'g" where
  "track_lead_beat R bar beat g =
     (let tick = start_tick bar + beat * TICKS_PER_BEAT;
          (k, g1) = rnd_randint R 0 4 g;
          note = clamp (track_NOTE_BASE + OCTAVE + MINOR_PENTATONIC ! nat k)
      in ([(tick, ''LeadSynth'', ''on'', note, 80),
           (tick + 2, ''LeadSynth'', ''off'', note, 0)], g1))"

definition track_lead :: "'g rand \<Rightarrow> 'g \<Rightarrow> event list \<times> 'g" where
  "track_lead R g =
     for_each (\<lambda>bar. for_each (track_lead_beat R bar) [0, 2]) [4..<BARS] g"

definition track_arp :: "event list" where
  "track_arp =
     concat (map (\<lambda>bar.
       (let arp_notes = [0, 3, 7, 10, 7, 3 :: nat]
        in concat (map (\<lambda>i.
             (let tick = start_tick bar + i * 2;
                  note = clamp (track_NOTE_BASE + OCTAVE * 2 +
                           MINOR_PENTATONIC !
                             ((arp_notes ! (i mod length arp_notes)) mod length MINOR_PENTATONIC))
              in [(tick, ''ArpSynth'', ''on'', note, 75),
                  (tick + 1, ''ArpSynth'', ''off'', note, 0)])) [0..<8]))) [8..<BARS])"

definition track_pad :: "event list" where
  "track_pad =
     concat (map (\<lambda>bar.
       (let chord_root = track_NOTE_BASE + OCTAVE + MINOR_PENTATONIC ! 0
        in concat (map (\<lambda>offset.
             (let note = clamp (chord_root + offset)
              in [(start_tick bar, ''PadSynth'', ''on'', note, 60),
                  (start_tick bar + 16, ''PadSynth'', ''off'', note, 0)])) PAD_CHORD_NOTES)))
       [2..<28])"

text \<open>SampleBank1: \<open>for bar in range(4, BARS, 4)\<close>.\<close>

definition track_sample1 :: "event list" where
  "track_sample1 =
     concat (map (\<lambda>bar.
       [(start_tick bar, ''SampleBank1'', ''on'', track_sample_note ''vocal1'', 100),
        (start_tick bar + 4, ''SampleBank1'', ''off'', track_sample_note ''vocal1'', 0)] @
       (if bar \<ge> 12
        then [(start_tick bar + 8, ''SampleBank1'', ''on'', track_sample_note ''vocal2'', 100),
              (start_tick bar + 12, ''SampleBank1'', ''off'', track_sample_note ''vocal2'', 0)]
        else []))
       (filter (\<lambda>bar. (bar - 4) mod 4 = 0) [4..<BARS]))"

definition track_sample2 :: "event list" where
  "track_sample2 =
     concat (map (\<lambda>bar.
       [(start_tick bar, ''SampleBank2'', ''on'', track_sample_note ''riser'', 90),
        (start_tick bar + 16, ''SampleBank2'', ''off'', track_sample_note ''riser'', 0)])
       [20..<24])"

text \<open>
  The events \<open>generate_acid_patterns\<close> pushes, in push order, from the generator state
  \<open>g\<close> on.
\<close>

definition track_pushed :: "'g rand \<Rightarrow> 'g \<Rightarrow> event list \<times> 'g" where
  "track_pushed R g =
     (let (tb303, g1) = track_tb303 R g;
          (bp909, g2) = track_bp909 R g1;
          (lead, g3) = track_lead R g2
      in (tb303 @ track_basssub @ bp909 @ lead @ track_arp @ track_pad @
          track_sample1 @ track_sample2, g3))"

text \<open>
  \<open>generate_acid_patterns()\<close>: \<open>random.seed(42)\<close> replaces the generator state \<open>g0\<close> of the
  caller; the result is \<open>sorted(event_queue)\<close> and the state left behind.
\<close>

definition generate_acid_patterns :: "'g rand \<Rightarrow> 'g \<Rightarrow> event list \<times> 'g" where
  "generate_acid_patterns R g0 =
     (let g = rnd_seed_int R 42;
          (pushed, g') = track_pushed R g
      in (sort (push_all [] pushed), g'))"

section \<open>The playback scheduler\<close>

text \<open>
  \<open>play_event_queue\<close> talks to the outside through \<open>midiout.send_message\<close> and
  \<open>time.sleep\<close>. The trace records both, in order. What the outside does is the
  environment: whether a \<open>send_message\<close> call returns or raises, and whether a
  KeyboardInterrupt arrives during a tick's sleep, each as a function of the trace so far.
\<close>

datatype py_error = KeyError | TypeError | SendError | KeyboardInterrupt

datatype effect = Send string "int list" | Sleep nat

record env =
  send_ok :: "effect list \<Rightarrow> string \<Rightarrow> int list \<Rightarrow> bool"
  interrupt :: "effect list \<Rightarrow> bool"

text \<open>
  The state of a run: \<open>active_notes\<close>, a dict from device to a set of notes, in the
  insertion order of \<open>DEVICES\<close>; the trace; and what was printed. A set of notes is a list
  without repetitions, in insertion order.
\<close>

record sched =
  active_notes :: "(string \<times> int list) list"
  trace :: "effect list"
  printed :: string

definition set_add :: "int \<Rightarrow> int list \<Rightarrow> int list" where
  "set_add v xs = (if v \<in> set xs then xs else xs @ [v])"

definition set_discard :: "int \<Rightarrow> int list \<Rightarrow> int list" where
  "set_discard v xs = removeAll v xs"

definition update_notes ::
  "string \<Rightarrow> (int list \<Rightarrow> int list) \<Rightarrow> (string \<times> int list) list \<Rightarrow> (string \<times> int list) list" where
  "update_notes device f notes =
     map (\<lambda>(d, ns). if d = device then (d, f ns) else (d, ns)) notes"

text \<open>
  \<open>DEVICES\<close> as the scheduler uses it: the device names in insertion order, each with its
  MIDI channel. acid2midi.py has no channel column and sends the status bytes 0x90, 0x80
  and 0xB0 as they are, which is channel 1 here. \<open>main\<close> opens one port per device and
  returns before playback when that fails, so \<open>midiouts\<close> has the keys of \<open>DEVICES\<close>.
\<close>

definition acid_DEVICES :: "(string \<times> nat) list" where
  "acid_DEVICES = [(''TB303'', 1), (''BP909'', 1), (''LeadSynth'', 1), (''PadSynth'', 1)]"

definition speed_DEVICES :: "(string \<times> nat) list" where
  "speed_DEVICES =
     [(''TB303'', 1), (''BP909'', 1), (''LeadSynth'', 1), (''PadSynth'', 1), (''Samples'', 5)]"


text \<open>\<open>midiout.send_message(msg)\<close> on the port of \<open>device\<close>.\<close>

definition send_message :: "env \<Rightarrow> string \<Rightarrow> int list \<Rightarrow> sched \<Rightarrow> py_error option \<times> sched" where
  "send_message env device msg st =
     (if send_ok env (trace st) device msg
      then (None, st\<lparr>trace := trace st @ [Send device msg]\<rparr>)
      else (Some SendError, st))"

text \<open>
  The body of the inner \<open>while\<close>: the lookup of the device (a KeyError for a device that
  is not in \<open>DEVICES\<close>), then the branch on the action; an action other than on, off and cc
  sends nothing.
\<close>

definition dispatch ::
  "env \<Rightarrow> (string \<times> nat) list \<Rightarrow> event \<Rightarrow> sched \<Rightarrow> py_error option \<times> sched" where
  "dispatch env devices e st =
     (case e of (_, device, action, value, param) \<Rightarrow>
        (case map_of devices device of
           None \<Rightarrow> (Some KeyError, st)
         | Some ch \<Rightarrow>
             (let channel = int ch - 1
              in if action = ''on'' then
                   (case send_message env device [0x90 OR channel, value, param] st of
                      (Some err, st1) \<Rightarrow> (Some err, st1)
                    | (None, st1) \<Rightarrow>
                        (None, st1\<lparr>active_notes :=
                                 update_notes device (set_add value) (active_notes st1)\<rparr>))
                 else if action = ''off'' then
                   (case send_message env device [0x80 OR channel, value, 0] st of
                      (Some err, st1) \<Rightarrow> (Some err, st1)
                    | (None, st1) \<Rightarrow>
                        (None, st1\<lparr>active_notes :=
                                 update_notes device (set_discard value) (active_notes st1)\<rparr>))
                 else if action = ''cc'' then
                   send_message env device [0xB0 OR channel, value, param] st
                 else (None, st))))"

text \<open>
  The inner loop \<open>while event_ptr < len(events) and events[event_ptr][0] == tick\<close>. The
  events from \<open>event_ptr\<close> on are the list argument; the result carries the events that
  remain.
\<close>

fun dispatch_due ::
  "env \<Rightarrow> (string \<times> nat) list \<Rightarrow> nat \<Rightarrow> event list \<Rightarrow> sched
     \<Rightarrow> py_error option \<times> event list \<times> sched" where
  "dispatch_due env devices tick [] st = (None, [], st)"
| "dispatch_due env devices tick (e # es) st =
     (if fst e = tick then
        (case dispatch env devices e st of
           (Some err, st1) \<Rightarrow> (Some err, e # es, st1)
         | (None, st1) \<Rightarrow> dispatch_due env devices tick es st1)
      else (None, e # es, st))"

text \<open>
  The loop \<open>while tick <= max_tick\<close>: the echo of the program (a parameter, the two text
  programs differ in it), the due events, the sleep, the next tick. An exception leaves
  the loop with the state reached.
\<close>

function run_ticks ::
  "env \<Rightarrow> (string \<times> nat) list
     \<Rightarrow> (nat \<Rightarrow> char_entry list \<Rightarrow> py_error option \<times> string \<times> char_entry list)
     \<Rightarrow> nat \<Rightarrow> nat \<Rightarrow> event list \<Rightarrow> char_entry list \<Rightarrow> sched \<Rightarrow> py_error option \<times> sched" where
  "run_ticks env devices echo max_tick tick events char_queue st =
     (if tick \<le> max_tick then
        (case echo tick char_queue of
           (Some err, out, char_queue') \<Rightarrow> (Some err, st)
         | (None, out, char_queue') \<Rightarrow>
             (case dispatch_due env devices tick events (st\<lparr>printed := printed st @ out\<rparr>) of
                (Some err, events', st1) \<Rightarrow> (Some err, st1)
              | (None, events', st1) \<Rightarrow>
                  (let st2 = st1\<lparr>trace := trace st1 @ [Sleep tick]\<rparr>
                   in if interrupt env (trace st2) then (Some KeyboardInterrupt, st2)
                      else run_ticks env devices echo max_tick (Suc tick) events' char_queue' st2)))
      else (None, st))"
  by pat_completeness auto
termination
  by (relation "measure (\<lambda>(env, devices, echo, max_tick, tick, events, char_queue, st).
                  Suc max_tick - tick)") auto

declare run_ticks.simps [simp del]

text \<open>\<open>max(xs, default=0)\<close> on a list of ticks.\<close>

definition py_max :: "nat list \<Rightarrow> nat" where
  "py_max xs = (case xs of [] \<Rightarrow> 0 | x # rest \<Rightarrow> fold max rest x)"

text \<open>
  acid2midi.py: \<open>char_ready_ticks = {i: tick for tick, i, _ in char_queue}\<close>, a dict built
  by insertion, and the echo of one tick: at most one character, the next one of the text,
  once its tick has come. \<open>char_ready_ticks.get\<close> returns None for a missing position and
  the comparison \<open>None <= tick\<close> raises TypeError.
\<close>

definition char_ready_ticks :: "char_entry list \<Rightarrow> (nat \<times> nat) list" where
  "char_ready_ticks char_queue =
     foldl (\<lambda>d (tick, i, ch). AList.update i tick d) [] char_queue"

definition acid_echo ::
  "(nat \<times> nat) list \<Rightarrow> nat \<Rightarrow> nat \<Rightarrow> char_entry list
     \<Rightarrow> py_error option \<times> string \<times> char_entry list" where
  "acid_echo ready n tick char_queue =
     (case char_queue of
        [] \<Rightarrow> (None, [], [])
      | (t, i, ch) # rest \<Rightarrow>
          (case map_of ready (n - length char_queue) of
             None \<Rightarrow> (Some TypeError, [], char_queue)
           | Some t' \<Rightarrow> if t' \<le> tick then (None, [ch], rest) else (None, [], char_queue)))"

text \<open>
  speedcore2midi.py: the echo of one tick prints every pending character whose tick has
  come (\<open>while char_ptr < len(char_queue) and char_queue[char_ptr][0] <= tick\<close>).
\<close>

definition speed_echo ::
  "nat \<Rightarrow> char_entry list \<Rightarrow> py_error option \<times> string \<times> char_entry list" where
  "speed_echo tick char_queue =
     (None, map (\<lambda>(t, i, ch). ch) (takeWhile (\<lambda>(t, i, ch). t \<le> tick) char_queue),
      dropWhile (\<lambda>(t, i, ch). t \<le> tick) char_queue)"

text \<open>
  The \<open>try\<close> block. The comprehension that pads an event to five fields changes nothing
  on a five-field event; \<open>events.sort(key=lambda x: x[0])\<close> is a stable sort by tick.
\<close>

definition initial_state :: "(string \<times> nat) list \<Rightarrow> sched" where
  "initial_state devices =
     \<lparr>active_notes = map (\<lambda>(device, ch). (device, [])) devices, trace = [], printed = []\<rparr>"

definition acid_max_tick :: "event list \<Rightarrow> char_entry list \<Rightarrow> nat" where
  "acid_max_tick events char_queue =
     py_max (map fst events @ map snd (char_ready_ticks char_queue)) + 1"

definition acid_try :: "env \<Rightarrow> event list \<Rightarrow> char_entry list \<Rightarrow> py_error option \<times> sched" where
  "acid_try env event_queue char_queue =
     (let events = sort_key fst event_queue;
          text_order = map (\<lambda>(t, i, ch). ch) char_queue;
          max_tick = acid_max_tick events char_queue
      in run_ticks env acid_DEVICES
           (acid_echo (char_ready_ticks char_queue) (length text_order))
           max_tick 0 events char_queue (initial_state acid_DEVICES))"

definition speed_max_tick :: "event list \<Rightarrow> char_entry list \<Rightarrow> nat" where
  "speed_max_tick events char_queue = py_max (map fst events @ map fst char_queue) + 1"

definition speed_try :: "env \<Rightarrow> event list \<Rightarrow> char_entry list \<Rightarrow> py_error option \<times> sched" where
  "speed_try env event_queue char_queue =
     (let events = sort_key fst event_queue;
          max_tick = speed_max_tick events char_queue
      in run_ticks env speed_DEVICES speed_echo max_tick 0 events char_queue
           (initial_state speed_DEVICES))"








section \<open>main: the text handed to the mapper\<close>











section \<open>Notions the properties are stated with\<close>

text \<open>
  The events a mapper pushes for a text, in the order of the \<open>heappush\<close> calls: position
  \<open>i\<close>, the rest of the text, \<open>current_time\<close> and the generator state as the loop has
  them.
\<close>

fun acid_emitted :: "'g rand \<Rightarrow> nat \<Rightarrow> string \<Rightarrow> nat \<Rightarrow> 'g \<Rightarrow> event list" where
  "acid_emitted R i [] current_time g = []"
| "acid_emitted R i (ch # rest) current_time g =
     (let (pushed, timing, current_time', g') = acid_char R i ch current_time g
      in pushed @ acid_emitted R (Suc i) rest current_time' g')"

fun speed_emitted :: "'g rand \<Rightarrow> string \<Rightarrow> nat \<Rightarrow> string \<Rightarrow> nat \<Rightarrow> 'g \<Rightarrow> event list" where
  "speed_emitted R order i [] current_time g = []"
| "speed_emitted R order i (ch # rest) current_time g =
     (let (pushed, timing, current_time', g') = speed_char R order i ch current_time g
      in pushed @ speed_emitted R order (Suc i) rest current_time' g')"

text \<open>
  A list of pushed events in which every NoteOn is followed at once by a NoteOff on the
  same device and note, at least one tick later, and no other NoteOff occurs.
\<close>

fun note_pairs :: "event list \<Rightarrow> bool" where
  "note_pairs [] = True"
| "note_pairs [e] = (ev_action e \<noteq> ''on'' \<and> ev_action e \<noteq> ''off'')"
| "note_pairs (e # e' # es) =
     (if ev_action e = ''on'' then
        ev_action e' = ''off'' \<and> ev_device e' = ev_device e \<and> ev_value e' = ev_value e \<and>
        ev_tick e + 1 \<le> ev_tick e' \<and> note_pairs es
      else if ev_action e = ''off'' then False
      else note_pairs (e' # es))"

text \<open>Value and parameter are 7-bit.\<close>

definition in_midi_range :: "event \<Rightarrow> bool" where
  "in_midi_range e = (0 \<le> ev_value e \<and> ev_value e \<le> 127 \<and> 0 \<le> ev_param e \<and> ev_param e \<le> 127)"

text \<open>The contract of \<open>random.randint(a, b)\<close>: an integer from \<open>a\<close> to \<open>b\<close>, both included.\<close>

definition randint_ok :: "'g rand \<Rightarrow> bool" where
  "randint_ok R = (\<forall>a b g. a \<le> b \<longrightarrow> a \<le> fst (rnd_randint R a b g) \<and> fst (rnd_randint R a b g) \<le> b)"

text \<open>
  The fields of an event after the tick, as Python compares them once the ticks are equal,
  and a list in which any two events of one tick stand in the order of those fields.
\<close>

definition tie_key :: "event \<Rightarrow> string \<times> string \<times> int \<times> int" where
  "tie_key e = snd e"

definition ties_by_fields :: "event list \<Rightarrow> bool" where
  "ties_by_fields evs =
     sorted_wrt (\<lambda>a b. ev_tick a = ev_tick b \<longrightarrow> tie_key a \<le> tie_key b) evs"

text \<open>
  An environment in which every \<open>send_message\<close> returns and no interrupt arrives, and
  event lists that name devices of \<open>DEVICES\<close> only.
\<close>

definition quiet :: "env \<Rightarrow> bool" where
  "quiet env = ((\<forall>tr device msg. send_ok env tr device msg) \<and> (\<forall>tr. \<not> interrupt env tr))"

definition known_devices :: "(string \<times> nat) list \<Rightarrow> event list \<Rightarrow> bool" where
  "known_devices devices events = list_all (\<lambda>e. ev_device e \<in> set (map fst devices)) events"

text \<open>
  The message the scheduler sends for an event, what one tick of the loop leaves in the
  trace (the messages of the events of that tick, in list order, then the sleep), and the
  ticks slept through in a trace.
\<close>

definition messages :: "(string \<times> nat) list \<Rightarrow> event \<Rightarrow> effect list" where
  "messages devices e =
     (case e of (t, device, action, value, param) \<Rightarrow>
        (case map_of devices device of
           None \<Rightarrow> []
         | Some ch \<Rightarrow>
             (let channel = int ch - 1
              in if action = ''on'' then [Send device [0x90 OR channel, value, param]]
                 else if action = ''off'' then [Send device [0x80 OR channel, value, 0]]
                 else if action = ''cc'' then [Send device [0xB0 OR channel, value, param]]
                 else [])))"

definition tick_trace :: "(string \<times> nat) list \<Rightarrow> event list \<Rightarrow> nat \<Rightarrow> effect list" where
  "tick_trace devices events t =
     concat (map (messages devices) (filter (\<lambda>e. ev_tick e = t) events)) @ [Sleep t]"

definition sleeps :: "effect list \<Rightarrow> nat list" where
  "sleeps tr = concat (map (\<lambda>x. case x of Sleep t \<Rightarrow> [t] | Send device msg \<Rightarrow> []) tr)"







section \<open>Concrete surroundings for evaluation\<close>

text \<open>
  A generator whose state is a counter, an environment in which every send succeeds and
  no interrupt arrives, and one whose sink accepts a single message and then fails.
\<close>

definition counter_rand :: "nat rand" where
  "counter_rand =
     \<lparr>rnd_seed = length, rnd_seed_int = nat,
      rnd_random = (\<lambda>g. (Fract (int (g mod 10)) 10, Suc g)),
      rnd_randint = (\<lambda>a b g. (a + int g mod (b - a + 1), Suc g))\<rparr>"

definition quiet_env :: env where
  "quiet_env = \<lparr>send_ok = (\<lambda>tr device msg. True), interrupt = (\<lambda>tr. False)\<rparr>"



section \<open>The guarded lookups succeed\<close>

lemma index_of_found: "c \<in> set s \<Longrightarrow> index_of s c < length s \<and> s ! index_of s c = c"
  by (induction s) auto

lemma vowel_index_found:
  "c \<in> set VOWELS \<Longrightarrow>
     index_of VOWEL_ORDER c < length VOWEL_ORDER \<and> VOWEL_ORDER ! index_of VOWEL_ORDER c = c"
  by (rule index_of_found) (simp add: VOWELS_def VOWEL_ORDER_def)

lemma digit_value_found: "c \<in> set DIGITS \<Longrightarrow> digit_value c < 10"
  by (auto simp: DIGITS_def digit_value_def)

section \<open>The heap queue keeps what is pushed\<close>

lemma mset_update_swap:
  assumes "i < length h" "j < length h" "i \<noteq> j"
  shows "mset (h[i := h ! j, j := x]) = mset (h[i := x])"
  using assms by (simp add: mset_update nth_list_update)

lemma mset_siftdown:
  "pos < length heap \<Longrightarrow>
     mset (siftdown heap startpos pos newitem) = mset (heap[pos := newitem])"
proof (induction heap startpos pos newitem rule: siftdown.induct)
  case (1 heap startpos pos newitem)
  show ?case
  proof (cases "pos > startpos \<and> newitem < heap ! ((pos - 1) div 2)")
    case True
    then have lt: "(pos - 1) div 2 < pos" by auto
    have "mset (siftdown heap startpos pos newitem) =
          mset (siftdown (heap[pos := heap ! ((pos - 1) div 2)]) startpos
                  ((pos - 1) div 2) newitem)"
      using True by (subst siftdown.simps) (simp add: Let_def)
    also have "\<dots> = mset (heap[pos := heap ! ((pos - 1) div 2), (pos - 1) div 2 := newitem])"
      using "1.IH"[OF _ refl refl] True lt "1.prems" by simp
    also have "\<dots> = mset (heap[pos := newitem])"
      using lt "1.prems" by (intro mset_update_swap) auto
    finally show ?thesis .
  next
    case False
    then show ?thesis by (subst siftdown.simps) (auto simp: Let_def)
  qed
qed

lemma mset_heappush: "mset (heappush heap item) = add_mset item (mset heap)"
  by (simp add: heappush_def mset_siftdown)

lemma mset_push_all: "mset (push_all heap items) = mset heap + mset items"
  unfolding push_all_def by (induction items arbitrary: heap) (simp_all add: mset_heappush)

lemma sort_mset_cong: "mset xs = mset ys \<Longrightarrow> sort xs = sort ys"
  by (metis properties_for_sort sorted_sort mset_sort)

lemma sort_push_all: "sort (push_all [] items) = sort items"
  by (rule sort_mset_cong) (simp add: mset_push_all)

section \<open>acid2midi.py on one character\<close>

lemma acid_single:
  "acid_text_to_event_queue R g0 [ch] =
     (case acid_char R 0 ch 0 (rnd_seed R [ch]) of (pushed, timing, t, g) \<Rightarrow>
        ((sort pushed, sort_key (\<lambda>x. fst (snd x)) timing), g))"
  by (simp add: acid_text_to_event_queue_def Let_def sort_push_all split: prod.splits)

lemma acid_space_char:
  "acid_char R i (CHR '' '') t g =
     ([(t, ''TB303'', ''cc'', 71, 60),
       (t, ''PadSynth'', ''on'', 60, 60), (t + 4, ''PadSynth'', ''off'', 60, 0),
       (t, ''PadSynth'', ''on'', 63, 60), (t + 4, ''PadSynth'', ''off'', 63, 0),
       (t, ''PadSynth'', ''on'', 67, 60), (t + 4, ''PadSynth'', ''off'', 67, 0)],
      [(t, i, CHR '' '')], t + 1, g)"
  by (simp add: acid_char_def acid_pad_def NOTE_BASE_def MINOR_PENTATONIC_def OCTAVE_def
      PAD_CHORD_NOTES_def clamp_def Let_def)

lemma acid_space:
  "acid_text_to_event_queue R g0 '' '' =
     (([(0, ''PadSynth'', ''on'', 60, 60), (0, ''PadSynth'', ''on'', 63, 60),
        (0, ''PadSynth'', ''on'', 67, 60), (0, ''TB303'', ''cc'', 71, 60),
        (4, ''PadSynth'', ''off'', 60, 0), (4, ''PadSynth'', ''off'', 63, 0),
        (4, ''PadSynth'', ''off'', 67, 0)],
       [(0, 0, CHR '' '')]), rnd_seed R '' '')"
  by (simp add: acid_single acid_space_char)

lemma acid_vowel_a_char:
  "acid_char R i (CHR ''a'') t g =
     (let d = (if fst (rnd_random R g) < f0_6 then 2 else 1)
      in ([(t, ''TB303'', ''on'', 48, 80), (t + d, ''TB303'', ''off'', 48, 0)] @
          (if d > 1 then [(t, ''TB303'', ''cc'', 5, 127), (t + d, ''TB303'', ''cc'', 5, 0)]
           else []) @
          [(t, ''BP909'', ''on'', 48, 100), (t + 1, ''BP909'', ''off'', 48, 0)],
          [(t, i, CHR ''a'')], t + 1, snd (rnd_random R g)))"
  by (simp add: acid_char_def acid_bass_def acid_drums_def lower_def PUNCTUATION_def
      ENCODABLE_def VOWELS_def VOWEL_ORDER_def bass_note_def NOTE_BASE_def
      MINOR_PENTATONIC_def clamp_def drum_note_def DRUM_NOTES_def Let_def split: prod.splits)

lemma acid_a:
  "fst (acid_text_to_event_queue R g0 ''a'') =
     (if fst (rnd_random R (rnd_seed R ''a'')) < f0_6
      then ([(0, ''BP909'', ''on'', 48, 100), (0, ''TB303'', ''cc'', 5, 127),
             (0, ''TB303'', ''on'', 48, 80), (1, ''BP909'', ''off'', 48, 0),
             (2, ''TB303'', ''cc'', 5, 0), (2, ''TB303'', ''off'', 48, 0)],
            [(0, 0, CHR ''a'')])
      else ([(0, ''BP909'', ''on'', 48, 100), (0, ''TB303'', ''on'', 48, 80),
             (1, ''BP909'', ''off'', 48, 0), (1, ''TB303'', ''off'', 48, 0)],
            [(0, 0, CHR ''a'')]))"
  by (simp add: acid_single acid_vowel_a_char Let_def)

text \<open>
  C9. acid2midi.py maps the text of one space to one ControlChange on TB303 (the bass
  device), three NoteOn events on PadSynth, one per offset of \<open>PAD_CHORD_NOTES\<close> above the
  chord root, each with its NoteOff four ticks later, and no NoteOn on TB303.
\<close>

theorem acid_space_events:
  "fst (fst (acid_text_to_event_queue R g0 '' '')) =
     [(0, ''PadSynth'', ''on'', 60, 60), (0, ''PadSynth'', ''on'', 63, 60),
      (0, ''PadSynth'', ''on'', 67, 60), (0, ''TB303'', ''cc'', 71, 60),
      (4, ''PadSynth'', ''off'', 60, 0), (4, ''PadSynth'', ''off'', 63, 0),
      (4, ''PadSynth'', ''off'', 67, 0)] \<and>
   map (\<lambda>offset. NOTE_BASE + MINOR_PENTATONIC ! 0 + OCTAVE + offset) PAD_CHORD_NOTES =
     [60, 63, 67] \<and>
   filter (\<lambda>e. ev_action e = ''cc'') (fst (fst (acid_text_to_event_queue R g0 '' ''))) =
     [(0, ''TB303'', ''cc'', 71, 60)] \<and>
   filter (\<lambda>e. ev_device e = ''PadSynth'' \<and> ev_action e = ''on'')
       (fst (fst (acid_text_to_event_queue R g0 '' ''))) =
     [(0, ''PadSynth'', ''on'', 60, 60), (0, ''PadSynth'', ''on'', 63, 60),
      (0, ''PadSynth'', ''on'', 67, 60)] \<and>
   filter (\<lambda>e. ev_device e = ''TB303'' \<and> ev_action e = ''on'')
       (fst (fst (acid_text_to_event_queue R g0 '' ''))) = []"
  by (simp add: acid_space ev_action_def ev_device_def NOTE_BASE_def MINOR_PENTATONIC_def
      OCTAVE_def PAD_CHORD_NOTES_def)

theorem acid_space_events_witness:
  "fst (fst (acid_text_to_event_queue counter_rand 0 '' '')) =
     [(0, ''PadSynth'', ''on'', 60, 60), (0, ''PadSynth'', ''on'', 63, 60),
      (0, ''PadSynth'', ''on'', 67, 60), (0, ''TB303'', ''cc'', 71, 60),
      (4, ''PadSynth'', ''off'', 60, 0), (4, ''PadSynth'', ''off'', 63, 0),
      (4, ''PadSynth'', ''off'', 67, 0)]"
  by (rule acid_space_events [of counter_rand 0, THEN conjunct1])

text \<open>
  C8. acid2midi.py maps the text \<open>a\<close> to a NoteOn on TB303 (the bass device) at tick 0
  with the pitch \<open>NOTE_BASE + MINOR_PENTATONIC[0]\<close>, its NoteOff at tick 2 or at tick 1 (as
  the draw falls below 0.6 or not; with 2 the glide pair comes too), and a NoteOn and
  NoteOff of the kick on BP909 at ticks 0 and 1.
\<close>

theorem acid_vowel_a_events:
  "NOTE_BASE + MINOR_PENTATONIC ! 0 = 48 \<and>
   fst (fst (acid_text_to_event_queue R g0 ''a'')) =
     (if fst (rnd_random R (rnd_seed R ''a'')) < f0_6
      then [(0, ''BP909'', ''on'', 48, 100), (0, ''TB303'', ''cc'', 5, 127),
            (0, ''TB303'', ''on'', 48, 80), (1, ''BP909'', ''off'', 48, 0),
            (2, ''TB303'', ''cc'', 5, 0), (2, ''TB303'', ''off'', 48, 0)]
      else [(0, ''BP909'', ''on'', 48, 100), (0, ''TB303'', ''on'', 48, 80),
            (1, ''BP909'', ''off'', 48, 0), (1, ''TB303'', ''off'', 48, 0)])"
  by (simp add: acid_a NOTE_BASE_def MINOR_PENTATONIC_def)

theorem acid_vowel_a_events_witness:
  "fst (fst (acid_text_to_event_queue counter_rand 0 ''a'')) =
     [(0, ''BP909'', ''on'', 48, 100), (0, ''TB303'', ''cc'', 5, 127),
      (0, ''TB303'', ''on'', 48, 80), (1, ''BP909'', ''off'', 48, 0),
      (2, ''TB303'', ''cc'', 5, 0), (2, ''TB303'', ''off'', 48, 0)]"
  using acid_vowel_a_events [of counter_rand 0, THEN conjunct2]
  by (simp add: counter_rand_def f0_6_def Fract_of_int_quotient)

section \<open>The merged sequence is the sorted list of what was pushed\<close>

lemma acid_loop_mset:
  "mset (fst (acid_loop R i str (q, ct, t, g))) = mset q + mset (acid_emitted R i str t g)"
proof (induction str arbitrary: i q ct t g)
  case Nil
  then show ?case by simp
next
  case (Cons ch rest)
  show ?case
    by (cases "acid_char R i ch t g") (simp add: Cons.IH mset_push_all)
qed

lemma acid_merged:
  "fst (fst (acid_text_to_event_queue R g0 str)) =
     sort (acid_emitted R 0 str 0 (rnd_seed R str))"
proof -
  obtain q ct t g where l: "acid_loop R 0 str ([], [], 0, rnd_seed R str) = (q, ct, t, g)"
    by (cases "acid_loop R 0 str ([], [], 0, rnd_seed R str)") auto
  have "mset q = mset (acid_emitted R 0 str 0 (rnd_seed R str))"
    using acid_loop_mset [of R 0 str "[]" "[]" 0 "rnd_seed R str"] l by simp
  then have "sort q = sort (acid_emitted R 0 str 0 (rnd_seed R str))"
    by (rule sort_mset_cong)
  then show ?thesis by (simp add: acid_text_to_event_queue_def l)
qed

lemma speed_loop_mset:
  "mset (fst (speed_loop R order i str (q, ct, t, g))) =
     mset q + mset (speed_emitted R order i str t g)"
proof (induction str arbitrary: i q ct t g)
  case Nil
  then show ?case by simp
next
  case (Cons ch rest)
  show ?case
    by (cases "speed_char R order i ch t g") (simp add: Cons.IH mset_push_all)
qed

lemma speed_merged:
  "fst (fst (speed_text_to_event_queue R order g0 str)) =
     sort (speed_emitted R order 0 str 0 (rnd_seed R str))"
proof -
  obtain q ct t g where
    l: "speed_loop R order 0 str ([], [], 0, rnd_seed R str) = (q, ct, t, g)"
    by (cases "speed_loop R order 0 str ([], [], 0, rnd_seed R str)") auto
  have "mset q = mset (speed_emitted R order 0 str 0 (rnd_seed R str))"
    using speed_loop_mset [of R order 0 str "[]" "[]" 0 "rnd_seed R str"] l by simp
  then have "sort q = sort (speed_emitted R order 0 str 0 (rnd_seed R str))"
    by (rule sort_mset_cong)
  then show ?thesis by (simp add: speed_text_to_event_queue_def l)
qed

lemma track_merged:
  "fst (generate_acid_patterns R g0) = sort (fst (track_pushed R (rnd_seed_int R 42)))"
  by (simp add: generate_acid_patterns_def sort_push_all split: prod.splits)

lemma sorted_ties: "sorted (evs :: event list) \<Longrightarrow> ties_by_fields evs"
  unfolding ties_by_fields_def
  by (erule sorted_wrt_mono_rel [rotated]) (auto simp: ev_tick_def tie_key_def less_eq_prod_def)

text \<open>
  C3, as the code has it. The merged sequence of a mapper is \<open>sorted\<close> applied to the
  pushed tuples: two events of one tick stand in the order of their remaining fields,
  device name first, then action, value and parameter, whatever the order in which they
  were pushed.
\<close>

theorem merged_ties_follow_tuple_order:
  "fst (fst (acid_text_to_event_queue R g0 str)) =
     sort (acid_emitted R 0 str 0 (rnd_seed R str)) \<and>
   ties_by_fields (fst (fst (acid_text_to_event_queue R g0 str))) \<and>
   (mset pushed = mset (acid_emitted R 0 str 0 (rnd_seed R str)) \<longrightarrow>
      sort (push_all [] pushed) = fst (fst (acid_text_to_event_queue R g0 str))) \<and>
   fst (fst (speed_text_to_event_queue R order g0 str)) =
     sort (speed_emitted R order 0 str 0 (rnd_seed R str)) \<and>
   ties_by_fields (fst (fst (speed_text_to_event_queue R order g0 str))) \<and>
   fst (generate_acid_patterns R g0) = sort (fst (track_pushed R (rnd_seed_int R 42))) \<and>
   ties_by_fields (fst (generate_acid_patterns R g0))"
  by (auto simp: acid_merged speed_merged track_merged sorted_ties sort_push_all
      intro: sort_mset_cong)

lemma acid_emitted_a:
  "acid_emitted counter_rand 0 ''a'' 0 (rnd_seed counter_rand ''a'') =
     [(0, ''TB303'', ''on'', 48, 80), (2, ''TB303'', ''off'', 48, 0),
      (0, ''TB303'', ''cc'', 5, 127), (2, ''TB303'', ''cc'', 5, 0),
      (0, ''BP909'', ''on'', 48, 100), (1, ''BP909'', ''off'', 48, 0)]"
  by (simp add: acid_vowel_a_char Let_def counter_rand_def f0_6_def Fract_of_int_quotient)

lemma acid_a_counter:
  "fst (fst (acid_text_to_event_queue counter_rand 0 ''a'')) =
     [(0, ''BP909'', ''on'', 48, 100), (0, ''TB303'', ''cc'', 5, 127),
      (0, ''TB303'', ''on'', 48, 80), (1, ''BP909'', ''off'', 48, 0),
      (2, ''TB303'', ''cc'', 5, 0), (2, ''TB303'', ''off'', 48, 0)]"
  by (simp add: acid_a counter_rand_def f0_6_def Fract_of_int_quotient)

theorem merged_ties_follow_tuple_order_witness:
  "fst (fst (acid_text_to_event_queue counter_rand 0 ''a'')) =
     sort [(0, ''TB303'', ''on'', 48, 80), (2, ''TB303'', ''off'', 48, 0),
      (0, ''TB303'', ''cc'', 5, 127), (2, ''TB303'', ''cc'', 5, 0),
      (0, ''BP909'', ''on'', 48, 100), (1, ''BP909'', ''off'', 48, 0)]"
  using merged_ties_follow_tuple_order [of counter_rand 0 "''a''", THEN conjunct1]
  by (simp only: acid_emitted_a)

text \<open>
  C3 as stated fails: for the text \<open>a\<close> the NoteOn of TB303 is pushed first and the
  NoteOn of BP909 fifth, both at tick 0, and the merged sequence has the one of BP909
  first.
\<close>

theorem insertion_order_counterexample:
  "acid_emitted counter_rand 0 ''a'' 0 (rnd_seed counter_rand ''a'') ! 0 =
     (0, ''TB303'', ''on'', 48, 80) \<and>
   acid_emitted counter_rand 0 ''a'' 0 (rnd_seed counter_rand ''a'') ! 4 =
     (0, ''BP909'', ''on'', 48, 100) \<and>
   fst (fst (acid_text_to_event_queue counter_rand 0 ''a'')) ! 0 =
     (0, ''BP909'', ''on'', 48, 100) \<and>
   fst (fst (acid_text_to_event_queue counter_rand 0 ''a'')) ! 2 =
     (0, ''TB303'', ''on'', 48, 80)"
  unfolding acid_emitted_a acid_a_counter by simp

section \<open>Determinism of the mappers\<close>



section \<open>Values and parameters\<close>

lemma clamp_lower [simp]: "0 \<le> clamp n" and clamp_upper [simp]: "clamp n \<le> 127"
  by (simp_all add: clamp_def)

lemma drum_note_values:
  "drum_note ''kick'' = 48" "drum_note ''snare'' = 50" "drum_note ''ltom'' = 52"
  "drum_note ''htom'' = 53" "drum_note ''rim'' = 55" "drum_note ''clap'' = 57"
  "drum_note ''ch'' = 59" "drum_note ''oh'' = 60" "drum_note ''crash'' = 62"
  by (simp_all add: drum_note_def DRUM_NOTES_def)

lemma randint_midi:
  assumes "randint_ok R" "a \<le> b" "0 \<le> a" "b \<le> 127"
  shows "0 \<le> fst (rnd_randint R a b g)" and "fst (rnd_randint R a b g) \<le> 127"
proof -
  have "a \<le> fst (rnd_randint R a b g) \<and> fst (rnd_randint R a b g) \<le> b"
    using assms(1,2) unfolding randint_ok_def by blast
  then show "0 \<le> fst (rnd_randint R a b g)" and "fst (rnd_randint R a b g) \<le> 127"
    using assms(3,4) by auto
qed

lemma in_midi_range_simp [simp]:
  "in_midi_range (t, d, a, v, p) = (0 \<le> v \<and> v \<le> 127 \<and> 0 \<le> p \<and> p \<le> 127)"
  by (simp add: in_midi_range_def ev_value_def ev_param_def)

lemma acid_bass_range: "list_all in_midi_range (fst (acid_bass R c t g))"
  by (simp add: acid_bass_def bass_note_def Let_def case_prod_beta)

lemma acid_drums_range: "list_all in_midi_range (acid_drums i c t)"
  by (simp add: acid_drums_def drum_note_values Let_def)

lemma acid_pad_range: "list_all in_midi_range (acid_pad t)"
  by (simp add: acid_pad_def PAD_CHORD_NOTES_def Let_def)

lemma acid_char_range: "list_all in_midi_range (fst (acid_char R i ch t g))"
  by (simp add: acid_char_def acid_bass_range acid_drums_range acid_pad_range Let_def
      case_prod_beta)

lemma acid_emitted_range: "list_all in_midi_range (acid_emitted R i str t g)"
proof (induction str arbitrary: i t g)
  case Nil
  then show ?case by simp
next
  case (Cons ch rest)
  show ?case
    using acid_char_range [of R i ch t g]
    by (simp add: Cons.IH case_prod_beta Let_def)
qed

lemma speed_pad_range:
  "randint_ok R \<Longrightarrow> list_all in_midi_range (fst (speed_pad R chord_root t offsets g))"
  by (induction offsets arbitrary: g) (simp_all add: Let_def case_prod_beta randint_midi)

lemma speed_separator_range:
  "randint_ok R \<Longrightarrow> list_all in_midi_range (fst (speed_separator R t g))"
  by (simp add: speed_separator_def Let_def case_prod_beta randint_midi speed_pad_range
      drum_note_values)

lemma speed_bass_range:
  "randint_ok R \<Longrightarrow> list_all in_midi_range (fst (speed_bass R c t g))"
  by (simp add: speed_bass_def bass_note_def Let_def case_prod_beta randint_midi)

lemma speed_kick_hat_range:
  "randint_ok R \<Longrightarrow> list_all in_midi_range (fst (speed_kick_hat R t g))"
  by (simp add: speed_kick_hat_def drum_note_values Let_def case_prod_beta randint_midi)

lemma speed_drums_range:
  "randint_ok R \<Longrightarrow> list_all in_midi_range (fst (speed_drums R i c t g))"
  by (simp add: speed_drums_def drum_note_values Let_def case_prod_beta randint_midi)

lemma speed_lead_range:
  "randint_ok R \<Longrightarrow> list_all in_midi_range (fst (speed_lead R c t g))"
  by (simp add: speed_lead_def Let_def case_prod_beta randint_midi)

lemma speed_char_range:
  "randint_ok R \<Longrightarrow> list_all in_midi_range (fst (speed_char R order i ch t g))"
  by (simp add: speed_char_def Let_def case_prod_beta randint_midi speed_separator_range
      speed_bass_range speed_kick_hat_range speed_drums_range speed_lead_range)

lemma speed_emitted_range:
  "randint_ok R \<Longrightarrow> list_all in_midi_range (speed_emitted R order i str t g)"
proof (induction str arbitrary: i t g)
  case Nil
  then show ?case by simp
next
  case (Cons ch rest)
  show ?case
    using speed_char_range [OF Cons.prems, of order i ch t g]
    by (simp add: Cons.IH [OF Cons.prems] case_prod_beta Let_def)
qed

lemma randint_ok_counter: "randint_ok counter_rand"
  unfolding randint_ok_def
proof (intro allI impI)
  fix a b :: int and g :: nat
  assume "a \<le> b"
  then have "0 \<le> int g mod (b - a + 1)" and "int g mod (b - a + 1) < b - a + 1"
    using pos_mod_bound [of "b - a + 1" "int g"] by simp_all
  then show "a \<le> fst (rnd_randint counter_rand a b g) \<and>
             fst (rnd_randint counter_rand a b g) \<le> b"
    by (simp add: counter_rand_def)
qed

lemma list_all_sort: "list_all P (sort xs) = list_all P xs"
  by (simp add: list_all_iff)

lemma randint_shifted:
  assumes "randint_ok R" "a \<le> b" "0 \<le> c + a" "c + b \<le> 127"
  shows "0 \<le> c + fst (rnd_randint R a b g)" and "c + fst (rnd_randint R a b g) \<le> 127"
proof -
  have "a \<le> fst (rnd_randint R a b g) \<and> fst (rnd_randint R a b g) \<le> b"
    using assms(1,2) unfolding randint_ok_def by blast
  then show "0 \<le> c + fst (rnd_randint R a b g)" and "c + fst (rnd_randint R a b g) \<le> 127"
    using assms(3,4) by auto
qed

lemma for_each_range:
  "(\<And>x g. list_all in_midi_range (fst (body x g))) \<Longrightarrow>
     list_all in_midi_range (fst (for_each body xs g))"
  by (induction xs arbitrary: g) (simp_all add: case_prod_beta Let_def)

lemma concat_range:
  "(\<And>x. list_all in_midi_range (f x)) \<Longrightarrow> list_all in_midi_range (concat (map f xs))"
  by (induction xs) simp_all

lemma track_sample_note_values:
  "track_sample_note ''vocal1'' = 48" "track_sample_note ''vocal2'' = 50"
  "track_sample_note ''riser'' = 52"
  by (simp_all add: track_sample_note_def track_SAMPLE_NOTES_def)

lemma track_tb303_step_range:
  "randint_ok R \<Longrightarrow> list_all in_midi_range (fst (track_tb303_step R bar i g))"
  by (simp add: track_tb303_step_def Let_def case_prod_beta randint_shifted)

lemma track_hat_range:
  "randint_ok R \<Longrightarrow> list_all in_midi_range (fst (track_hat R tick i g))"
  by (simp add: track_hat_def Let_def case_prod_beta randint_shifted drum_note_values)

lemma track_bp909_beat_range:
  "randint_ok R \<Longrightarrow> list_all in_midi_range (fst (track_bp909_beat R bar beat g))"
  by (simp add: track_bp909_beat_def Let_def case_prod_beta drum_note_values
      for_each_range track_hat_range)

lemma track_lead_beat_range:
  "list_all in_midi_range (fst (track_lead_beat R bar beat g))"
  by (simp add: track_lead_beat_def Let_def case_prod_beta)

lemma track_static_range:
  "list_all in_midi_range track_basssub" "list_all in_midi_range track_arp"
  "list_all in_midi_range track_pad" "list_all in_midi_range track_sample1"
  "list_all in_midi_range track_sample2"
  by (simp_all add: track_basssub_def track_arp_def track_pad_def track_sample1_def
      track_sample2_def concat_range Let_def track_NOTE_BASE_def OCTAVE_def
      PAD_CHORD_NOTES_def track_sample_note_values)

lemma track_pushed_range:
  "randint_ok R \<Longrightarrow> list_all in_midi_range (fst (track_pushed R g))"
  by (simp add: track_pushed_def track_tb303_def track_bp909_def track_lead_def
      Let_def case_prod_beta for_each_range track_tb303_step_range track_bp909_beat_range
      track_lead_beat_range track_static_range)

lemma track_merged_range:
  "randint_ok R \<Longrightarrow> list_all in_midi_range (fst (generate_acid_patterns R g0))"
  by (simp add: track_merged list_all_sort track_pushed_range)

text \<open>
  C7. Every pitch a text mapper computes goes through \<open>min(max(note, 0), 127)\<close>, which
  turns -5 into 0 and 140 into 127; the other values and the parameters are constants or
  draws of \<open>randint\<close> between bounds inside 0 to 127. So every event of the merged sequence
  has value and parameter in 0 to 127: for acid2midi.py always, for speedcore2midi.py
  and acidtrack.py when \<open>randint\<close> keeps its bounds.
\<close>

theorem stored_values_in_midi_range:
  "clamp (- 5) = 0 \<and> clamp 140 = 127 \<and> 0 \<le> clamp n \<and> clamp n \<le> 127 \<and>
   list_all in_midi_range (fst (fst (acid_text_to_event_queue R g0 str))) \<and>
   (randint_ok R \<longrightarrow>
      list_all in_midi_range (fst (fst (speed_text_to_event_queue R order g0 str))) \<and>
      list_all in_midi_range (fst (generate_acid_patterns R g0)))"
  by (simp add: acid_merged speed_merged list_all_sort acid_emitted_range speed_emitted_range
      track_merged_range)
    (simp add: clamp_def)

theorem stored_values_in_midi_range_witness:
  "randint_ok counter_rand \<and>
   list_all in_midi_range (fst (fst (speed_text_to_event_queue counter_rand ''@,'' 0 ''a@ ''))) \<and>
   list_all in_midi_range (fst (fst (acid_text_to_event_queue counter_rand 0 ''a@ '')))"
  using stored_values_in_midi_range [of 0 counter_rand 0 "''a@ ''" "''@,''"] randint_ok_counter
  by simp

section \<open>NoteOn and NoteOff come in pairs\<close>

lemma note_pairs_append: "note_pairs xs \<Longrightarrow> note_pairs (xs @ ys) = note_pairs ys"
proof (induction xs rule: note_pairs.induct)
  case 1
  then show ?case by simp
next
  case (2 e)
  then show ?case by (cases ys) auto
next
  case (3 e e' es)
  then show ?case by (auto split: if_splits)
qed

lemma note_pairs_appendI: "note_pairs xs \<Longrightarrow> note_pairs ys \<Longrightarrow> note_pairs (xs @ ys)"
  by (simp add: note_pairs_append)

lemma note_pairs_concat:
  "(\<And>x. x \<in> set xs \<Longrightarrow> note_pairs (f x)) \<Longrightarrow> note_pairs (concat (map f xs))"
  by (induction xs) (simp_all add: note_pairs_appendI)

lemma note_pairs_for_each:
  "(\<And>x g. note_pairs (fst (body x g))) \<Longrightarrow> note_pairs (fst (for_each body xs g))"
  by (induction xs arbitrary: g) (simp_all add: note_pairs_appendI case_prod_beta Let_def)

lemma ev_simps [simp]:
  "ev_tick (t, d, a, v, p) = t" "ev_device (t, d, a, v, p) = d" "ev_action (t, d, a, v, p) = a"
  "ev_value (t, d, a, v, p) = v" "ev_param (t, d, a, v, p) = p"
  by (simp_all add: ev_tick_def ev_device_def ev_action_def ev_value_def ev_param_def)

lemma note_pairs_other [simp]:
  "ev_action e \<noteq> ''on'' \<Longrightarrow> ev_action e \<noteq> ''off'' \<Longrightarrow> note_pairs (e # es) = note_pairs es"
  by (cases es) simp_all

lemma acid_bass_pairs: "note_pairs (fst (acid_bass R c t g))"
  by (simp add: acid_bass_def Let_def case_prod_beta)

lemma acid_drums_pairs: "note_pairs (acid_drums i c t)"
  by (simp add: acid_drums_def Let_def)

lemma acid_pad_pairs: "note_pairs (acid_pad t)"
  by (simp add: acid_pad_def PAD_CHORD_NOTES_def Let_def)

lemma acid_char_pairs: "note_pairs (fst (acid_char R i ch t g))"
  by (simp add: acid_char_def acid_bass_pairs acid_drums_pairs acid_pad_pairs Let_def
      case_prod_beta note_pairs_appendI)

lemma speed_pad_pairs: "note_pairs (fst (speed_pad R chord_root t offsets g))"
  by (induction offsets arbitrary: g) (simp_all add: Let_def case_prod_beta)

lemma speed_separator_pairs: "note_pairs (fst (speed_separator R t g))"
  by (simp add: speed_separator_def Let_def case_prod_beta speed_pad_pairs note_pairs_append)

lemma speed_bass_pairs: "note_pairs (fst (speed_bass R c t g))"
  by (simp add: speed_bass_def Let_def case_prod_beta)

lemma speed_kick_hat_pairs: "note_pairs (fst (speed_kick_hat R t g))"
  by (simp add: speed_kick_hat_def Let_def case_prod_beta)

lemma speed_drums_pairs: "note_pairs (fst (speed_drums R i c t g))"
  by (simp add: speed_drums_def Let_def case_prod_beta)

lemma speed_lead_pairs: "note_pairs (fst (speed_lead R c t g))"
  by (simp add: speed_lead_def Let_def case_prod_beta)

lemma speed_char_pairs:
  "ch \<notin> set SAMPLES \<Longrightarrow> note_pairs (fst (speed_char R order i ch t g))"
  by (simp add: speed_char_def Let_def case_prod_beta speed_separator_pairs speed_bass_pairs
      speed_kick_hat_pairs speed_drums_pairs speed_lead_pairs note_pairs_appendI)

lemma track_tb303_step_pairs: "note_pairs (fst (track_tb303_step R bar i g))"
  by (simp add: track_tb303_step_def Let_def case_prod_beta)

lemma track_hat_pairs: "note_pairs (fst (track_hat R tick i g))"
  by (simp add: track_hat_def Let_def case_prod_beta)

lemma track_bp909_beat_pairs: "note_pairs (fst (track_bp909_beat R bar beat g))"
  by (simp add: track_bp909_beat_def Let_def case_prod_beta note_pairs_appendI
      note_pairs_for_each track_hat_pairs)

lemma track_lead_beat_pairs: "note_pairs (fst (track_lead_beat R bar beat g))"
  by (simp add: track_lead_beat_def Let_def case_prod_beta)

lemma track_pushed_pairs: "note_pairs (fst (track_pushed R g))"
  by (simp add: track_pushed_def track_tb303_def track_bp909_def track_lead_def
      track_basssub_def track_arp_def track_pad_def track_sample1_def track_sample2_def
      Let_def case_prod_beta note_pairs_appendI note_pairs_for_each note_pairs_concat
      track_tb303_step_pairs track_bp909_beat_pairs track_lead_beat_pairs
      PAD_CHORD_NOTES_def)

text \<open>
  C4, as the code has it. Whatever a mapper pushes for a symbol, each NoteOn is followed
  at once by one NoteOff on the same device and note at a later tick, and there is no
  other NoteOff: in acid2midi.py for every character, in acidtrack.py for the whole
  pattern, in speedcore2midi.py for every character that is not a sample trigger.
\<close>

theorem note_on_paired_with_note_off:
  "note_pairs (fst (acid_char R i ch t g)) \<and>
   (ch \<notin> set SAMPLES \<longrightarrow> note_pairs (fst (speed_char R order i ch t g))) \<and>
   note_pairs (fst (track_pushed R g))"
  by (simp add: acid_char_pairs speed_char_pairs track_pushed_pairs)

theorem note_on_paired_with_note_off_witness:
  "CHR ''a'' \<notin> set SAMPLES \<and>
   note_pairs (fst (speed_char counter_rand ''@,'' 0 (CHR ''a'') 0 1))"
  using note_on_paired_with_note_off [of counter_rand 0 "CHR ''a''" 0 1 "''@,''"]
  by (simp add: SAMPLES_def)

text \<open>
  C4 as stated fails on the sample triggers of speedcore2midi.py: for \<open>@\<close> the mapper
  pushes one NoteOn on Samples and no NoteOff ("Trigger note-on only, let sample play full
  duration").
\<close>

theorem sample_trigger_counterexample:
  "fst (speed_char counter_rand ''@,'' 0 (CHR ''@'') 0 1) = [(0, ''Samples'', ''on'', 0, 127)] \<and>
   \<not> note_pairs (fst (speed_char counter_rand ''@,'' 0 (CHR ''@'') 0 1))"
  by (simp add: speed_char_def SAMPLES_def sample_note_def SAMPLE_NOTES_def clamp_def
      counter_rand_def Let_def)

section \<open>Symbols that are not encodable\<close>







section \<open>The trailing space of main\<close>








section \<open>The drain\<close>


lemma send_message_notes [simp]:
  "active_notes (snd (send_message env device msg st)) = active_notes st"
  by (simp add: send_message_def)

lemma update_notes_keys [simp]: "map fst (update_notes device f active) = map fst active"
  by (induction active) (auto simp: update_notes_def)































lemma quiet_quiet_env: "quiet quiet_env"
  by (simp add: quiet_def quiet_env_def)






section \<open>The tick loop\<close>

lemma known_map_of:
  "ev_device e \<in> set (map fst devices) \<Longrightarrow> \<exists>ch. map_of devices (ev_device e) = Some ch"
  by (cases "map_of devices (ev_device e)") (auto simp: map_of_eq_None_iff)

lemma dispatch_quiet:
  assumes "quiet env" and "ev_device e \<in> set (map fst devices)"
  shows "fst (dispatch env devices e st) = None"
    and "trace (snd (dispatch env devices e st)) = trace st @ messages devices e"
proof -
  obtain t device action v p where e: "e = (t, device, action, v, p)" by (cases e) auto
  obtain ch where ch: "map_of devices device = Some ch"
    using known_map_of [OF assms(2)] by (auto simp: e ev_device_def)
  have ok: "\<And>tr d m. send_ok env tr d m" using assms(1) by (simp add: quiet_def)
  show "fst (dispatch env devices e st) = None"
    by (simp add: e ch dispatch_def send_message_def ok Let_def)
  show "trace (snd (dispatch env devices e st)) = trace st @ messages devices e"
    by (simp add: e ch dispatch_def messages_def send_message_def ok Let_def)
qed

lemma dispatch_due_quiet:
  assumes "quiet env"
  shows "known_devices devices events \<Longrightarrow>
     fst (dispatch_due env devices tick events st) = None \<and>
     fst (snd (dispatch_due env devices tick events st)) =
       dropWhile (\<lambda>e. ev_tick e = tick) events \<and>
     trace (snd (snd (dispatch_due env devices tick events st))) =
       trace st @ concat (map (messages devices) (takeWhile (\<lambda>e. ev_tick e = tick) events))"
proof (induction events arbitrary: st)
  case Nil
  then show ?case by simp
next
  case (Cons e es)
  have k: "ev_device e \<in> set (map fst devices)" and ks: "known_devices devices es"
    using Cons.prems by (simp_all add: known_devices_def)
  obtain err st1 where d: "dispatch env devices e st = (err, st1)"
    by (cases "dispatch env devices e st") auto
  have err: "err = None" and tr: "trace st1 = trace st @ messages devices e"
    using dispatch_quiet [OF assms k, of st] d by simp_all
  show ?case
    using Cons.IH [OF ks, of st1] by (simp add: d err tr ev_tick_def)
qed

lemma takeWhile_tick_filter:
  "sorted (map ev_tick events) \<Longrightarrow> \<forall>e\<in>set events. tick \<le> ev_tick e \<Longrightarrow>
     takeWhile (\<lambda>e. ev_tick e = tick) events = filter (\<lambda>e. ev_tick e = tick) events"
proof (induction events)
  case Nil
  then show ?case by simp
next
  case (Cons e es)
  show ?case
  proof (cases "ev_tick e = tick")
    case True
    then show ?thesis using Cons by simp
  next
    case False
    then have "\<forall>x\<in>set es. ev_tick x \<noteq> tick" using Cons.prems by fastforce
    then have "filter (\<lambda>e. ev_tick e = tick) es = []" by (simp add: filter_empty_conv)
    then show ?thesis using False by simp
  qed
qed

lemma dropWhile_tick_later:
  "sorted (map ev_tick events) \<Longrightarrow> \<forall>e\<in>set events. tick \<le> ev_tick e \<Longrightarrow>
     \<forall>e\<in>set (dropWhile (\<lambda>e. ev_tick e = tick) events). Suc tick \<le> ev_tick e"
proof (induction events)
  case Nil
  then show ?case by simp
next
  case (Cons e es)
  show ?case
  proof (cases "ev_tick e = tick")
    case True
    then show ?thesis using Cons by simp
  next
    case False
    then show ?thesis using Cons.prems by fastforce
  qed
qed

lemma sorted_dropWhile_tick:
  "sorted (map ev_tick events) \<Longrightarrow> sorted (map ev_tick (dropWhile P events))"
  by (induction events) auto

lemma filter_dropWhile_other:
  "t \<noteq> tick \<Longrightarrow>
     filter (\<lambda>e. ev_tick e = t) (dropWhile (\<lambda>e. ev_tick e = tick) events) =
     filter (\<lambda>e. ev_tick e = t) events"
  by (induction events) auto

lemma known_dropWhile: "known_devices devices events \<Longrightarrow> known_devices devices (dropWhile P events)"
  unfolding known_devices_def list_all_iff using set_dropWhileD by fast

lemma run_ticks_quiet:
  "quiet env \<Longrightarrow>
   (\<And>t cq. I cq \<Longrightarrow> fst (echo t cq) = None \<and> I (snd (snd (echo t cq)))) \<Longrightarrow>
   I cq \<Longrightarrow> sorted (map ev_tick events) \<Longrightarrow> \<forall>e\<in>set events. tick \<le> ev_tick e \<Longrightarrow>
     known_devices devices events \<Longrightarrow>
     fst (run_ticks env devices echo max_tick tick events cq st) = None \<and>
     trace (snd (run_ticks env devices echo max_tick tick events cq st)) =
       trace st @ concat (map (tick_trace devices events) [tick..<Suc max_tick])"
proof (induction env devices echo max_tick tick events cq st rule: run_ticks.induct)
  case (1 env devices echo max_tick tick events cq st)
  show ?case
  proof (cases "tick \<le> max_tick")
    case False
    then show ?thesis by (subst (1 2) run_ticks.simps) simp
  next
    case True
    obtain err out cq' where e: "echo tick cq = (err, out, cq')"
      by (cases "echo tick cq") auto
    have err: "err = None" and I': "I cq'"
      using "1.prems"(2) [OF "1.prems"(3), of tick] e by simp_all
    let ?st0 = "st\<lparr>printed := printed st @ out\<rparr>"
    obtain err1 events' st1 where d: "dispatch_due env devices tick events ?st0 = (err1, events', st1)"
      by (cases "dispatch_due env devices tick events ?st0") auto
    have err1: "err1 = None"
      and ev': "events' = dropWhile (\<lambda>e. ev_tick e = tick) events"
      and tr1: "trace st1 = trace st @
          concat (map (messages devices) (takeWhile (\<lambda>e. ev_tick e = tick) events))"
      using dispatch_due_quiet [OF "1.prems"(1) "1.prems"(6), of tick ?st0] d by simp_all
    let ?st2 = "st1\<lparr>trace := trace st1 @ [Sleep tick]\<rparr>"
    have ni: "\<not> interrupt env (trace ?st2)" using "1.prems"(1) by (simp add: quiet_def)
    have tr2: "trace ?st2 = trace st @ tick_trace devices events tick"
      using tr1 takeWhile_tick_filter [OF "1.prems"(4,5)] by (simp add: tick_trace_def)
    have s': "sorted (map ev_tick events')"
      using "1.prems"(4) by (simp add: ev' sorted_dropWhile_tick)
    have l': "\<forall>e\<in>set events'. Suc tick \<le> ev_tick e"
      using dropWhile_tick_later [OF "1.prems"(4,5)] by (simp add: ev')
    have k': "known_devices devices events'"
      using "1.prems"(6) by (simp add: ev' known_dropWhile)
    have IH: "fst (run_ticks env devices echo max_tick (Suc tick) events' cq' ?st2) = None \<and>
        trace (snd (run_ticks env devices echo max_tick (Suc tick) events' cq' ?st2)) =
          trace ?st2 @ concat (map (tick_trace devices events') [Suc tick..<Suc max_tick])"
      by (rule "1.IH" [OF True e [symmetric] err refl d [symmetric] err1 refl refl ni
            "1.prems"(1) "1.prems"(2) I' s' l' k'])
    have same: "map (tick_trace devices events') [Suc tick..<Suc max_tick] =
        map (tick_trace devices events) [Suc tick..<Suc max_tick]"
    proof (rule map_cong [OF refl])
      fix t assume "t \<in> set [Suc tick..<Suc max_tick]"
      then have "t \<noteq> tick" by auto
      then show "tick_trace devices events' t = tick_trace devices events t"
        by (simp add: tick_trace_def ev' filter_dropWhile_other)
    qed
    have unfold: "run_ticks env devices echo max_tick tick events cq st =
        run_ticks env devices echo max_tick (Suc tick) events' cq' ?st2"
      using True e err d err1 ni by (subst run_ticks.simps) (simp add: Let_def)
    have up: "[tick..<Suc max_tick] = tick # [Suc tick..<Suc max_tick]"
      using True by (simp add: upt_conv_Cons)
    show ?thesis
      using IH by (simp add: unfold same tr2 up del: upt_Suc)
  qed
qed

lemma ev_tick_fst: "ev_tick = fst"
  by (rule ext) (simp add: ev_tick_def)

lemma py_max_Max: "xs \<noteq> [] \<Longrightarrow> py_max xs = Max (set xs)"
proof (cases xs)
  case Nil
  assume "xs \<noteq> []"
  with Nil show ?thesis by simp
next
  case (Cons a list)
  show ?thesis unfolding Cons py_max_def Max.set_eq_fold by simp
qed

lemma py_max_upper: "x \<in> set xs \<Longrightarrow> x \<le> py_max xs"
  using py_max_Max [of xs] by (cases "xs = []") auto

lemma tick_trace_sort_key:
  "tick_trace devices (sort_key fst events) = tick_trace devices events"
  by (rule ext) (simp add: tick_trace_def ev_tick_fst sort_key_stable)

lemma known_sort_key:
  "known_devices devices events \<Longrightarrow> known_devices devices (sort_key fst events)"
  by (simp add: known_devices_def list_all_iff)

lemma sleeps_messages: "sleeps (concat (map (messages devices) events)) = []"
  by (induction events)
    (auto simp: sleeps_def messages_def Let_def split: option.splits prod.splits)

lemma sleeps_append: "sleeps (xs @ ys) = sleeps xs @ sleeps ys"
  by (simp add: sleeps_def)

lemma sleeps_tick_trace: "sleeps (tick_trace devices events t) = [t]"
  by (simp add: tick_trace_def sleeps_append sleeps_messages) (simp add: sleeps_def)

lemma sleeps_ticks: "sleeps (concat (map (tick_trace devices events) ts)) = ts"
  by (induction ts) (simp_all add: sleeps_append sleeps_tick_trace, simp add: sleeps_def)

lemma update_absent:
  "k \<notin> fst ` set al \<Longrightarrow> AList.update k v al = al @ [(k, v)]"
  by (induction al) auto

lemma char_ready_ticks_snoc:
  "char_ready_ticks (cq @ [(t, i, c)]) = AList.update i t (char_ready_ticks cq)"
  by (simp add: char_ready_ticks_def)

lemma char_ready_ticks_keys:
  "fst ` set (char_ready_ticks cq) = set (map (fst \<circ> snd) cq)"
proof (induction cq rule: rev_induct)
  case Nil
  then show ?case by (simp add: char_ready_ticks_def)
next
  case (snoc x xs)
  obtain t i c where x: "x = (t, i, c)" by (cases x) auto
  show ?case using snoc by (simp add: x char_ready_ticks_snoc dom_update)
qed

lemma char_ready_ticks_distinct:
  "distinct (map (fst \<circ> snd) cq) \<Longrightarrow>
     char_ready_ticks cq = map (\<lambda>(t, i, c). (i, t)) cq"
proof (induction cq rule: rev_induct)
  case Nil
  then show ?case by (simp add: char_ready_ticks_def)
next
  case (snoc x xs)
  obtain t i c where x: "x = (t, i, c)" by (cases x) auto
  have "i \<notin> fst ` set (char_ready_ticks xs)"
    using snoc.prems by (simp add: char_ready_ticks_keys x)
  then show ?case
    using snoc by (simp add: x char_ready_ticks_snoc update_absent)
qed

lemma char_ready_ticks_values:
  "distinct (map (fst \<circ> snd) cq) \<Longrightarrow> map snd (char_ready_ticks cq) = map fst cq"
  by (simp add: char_ready_ticks_distinct case_prod_beta)

lemma acid_echo_ok:
  assumes idx: "map (fst \<circ> snd) cq0 = [0..<length cq0]"
    and suffix: "\<exists>k. cq = drop k cq0"
  shows "fst (acid_echo (char_ready_ticks cq0) (length cq0) t cq) = None \<and>
     (\<exists>k. snd (snd (acid_echo (char_ready_ticks cq0) (length cq0) t cq)) = drop k cq0)"
proof (cases cq)
  case Nil
  then show ?thesis using suffix by (auto simp: acid_echo_def)
next
  case (Cons x rest)
  obtain t' i c where x: "x = (t', i, c)" by (cases x) auto
  obtain k where k: "cq = drop k cq0" using suffix by blast
  have klt: "k < length cq0" using k Cons by (cases "k < length cq0") auto
  have len: "length cq0 - length cq = k" using k klt by simp
  have "k \<in> set (map (fst \<circ> snd) cq0)" using klt idx by simp
  then have "k \<in> fst ` set (char_ready_ticks cq0)" by (simp only: char_ready_ticks_keys)
  then obtain tk where tk: "map_of (char_ready_ticks cq0) k = Some tk"
    by (cases "map_of (char_ready_ticks cq0) k") (auto simp: map_of_eq_None_iff)
  have rest: "rest = drop (Suc k) cq0"
    using k Cons by (metis drop_Suc list.sel(3) tl_drop)
  have len': "length cq0 - Suc (length rest) = k" using len Cons by simp
  have again: "x # rest = drop k cq0" using k Cons by simp
  show ?thesis
  proof (cases "tk \<le> t")
    case True
    have "acid_echo (char_ready_ticks cq0) (length cq0) t cq = (None, [c], rest)"
      using True by (simp add: acid_echo_def Cons x len' tk)
    then show ?thesis using rest by auto
  next
    case False
    have "acid_echo (char_ready_ticks cq0) (length cq0) t cq = (None, [], cq)"
      using False by (simp add: acid_echo_def Cons x len' tk)
    then show ?thesis using k by auto
  qed
qed

lemma speed_echo_ok: "fst (speed_echo t cq) = None \<and> True"
  by (simp add: speed_echo_def)

lemma acid_try_quiet:
  assumes "quiet env" and "known_devices acid_DEVICES events"
    and "map (fst \<circ> snd) cq = [0..<length cq]"
  shows "fst (acid_try env events cq) = None \<and>
     trace (snd (acid_try env events cq)) =
       concat (map (tick_trace acid_DEVICES events)
                 [0..<Suc (acid_max_tick (sort_key fst events) cq)])"
proof -
  have "fst (run_ticks env acid_DEVICES (acid_echo (char_ready_ticks cq) (length cq))
           (acid_max_tick (sort_key fst events) cq) 0 (sort_key fst events) cq
           (initial_state acid_DEVICES)) = None \<and>
        trace (snd (run_ticks env acid_DEVICES (acid_echo (char_ready_ticks cq) (length cq))
           (acid_max_tick (sort_key fst events) cq) 0 (sort_key fst events) cq
           (initial_state acid_DEVICES))) =
        trace (initial_state acid_DEVICES) @
          concat (map (tick_trace acid_DEVICES (sort_key fst events))
                 [0..<Suc (acid_max_tick (sort_key fst events) cq)])"
  proof (rule run_ticks_quiet [where I = "\<lambda>q. \<exists>k. q = drop k cq"])
    show "quiet env" by (rule assms(1))
    show "\<exists>k. cq = drop k cq" by (rule exI [of _ 0]) simp
    show "sorted (map ev_tick (sort_key fst events))"
      by (simp add: ev_tick_fst sorted_sort_key)
    show "\<forall>e\<in>set (sort_key fst events). 0 \<le> ev_tick e" by simp
    show "known_devices acid_DEVICES (sort_key fst events)"
      by (rule known_sort_key [OF assms(2)])
  next
    fix t q
    assume "\<exists>k. q = drop k cq"
    then show "fst (acid_echo (char_ready_ticks cq) (length cq) t q) = None \<and>
        (\<exists>k. snd (snd (acid_echo (char_ready_ticks cq) (length cq) t q)) = drop k cq)"
      by (rule acid_echo_ok [OF assms(3)])
  qed
  then show ?thesis
    by (simp add: acid_try_def Let_def tick_trace_sort_key initial_state_def del: upt_Suc)
qed

lemma speed_try_quiet:
  assumes "quiet env" and "known_devices speed_DEVICES events"
  shows "fst (speed_try env events cq) = None \<and>
     trace (snd (speed_try env events cq)) =
       concat (map (tick_trace speed_DEVICES events)
                 [0..<Suc (speed_max_tick (sort_key fst events) cq)])"
proof -
  have "fst (run_ticks env speed_DEVICES speed_echo
           (speed_max_tick (sort_key fst events) cq) 0 (sort_key fst events) cq
           (initial_state speed_DEVICES)) = None \<and>
        trace (snd (run_ticks env speed_DEVICES speed_echo
           (speed_max_tick (sort_key fst events) cq) 0 (sort_key fst events) cq
           (initial_state speed_DEVICES))) =
        trace (initial_state speed_DEVICES) @
          concat (map (tick_trace speed_DEVICES (sort_key fst events))
                 [0..<Suc (speed_max_tick (sort_key fst events) cq)])"
  proof (rule run_ticks_quiet [where I = "\<lambda>q. True"])
    show "quiet env" by (rule assms(1))
    show "True" ..
    show "sorted (map ev_tick (sort_key fst events))"
      by (simp add: ev_tick_fst sorted_sort_key)
    show "\<forall>e\<in>set (sort_key fst events). 0 \<le> ev_tick e" by simp
    show "known_devices speed_DEVICES (sort_key fst events)"
      by (rule known_sort_key [OF assms(2)])
  next
    fix t q
    show "fst (speed_echo t q) = None \<and> True" by (rule speed_echo_ok)
  qed
  then show ?thesis
    by (simp add: speed_try_def Let_def tick_trace_sort_key initial_state_def del: upt_Suc)
qed

lemma acid_max_tick_value:
  assumes "distinct (map (fst \<circ> snd) cq)"
  shows "acid_max_tick (sort_key fst events) cq = Suc (py_max (map ev_tick events @ map fst cq))"
    and "e \<in> set events \<Longrightarrow> ev_tick e < acid_max_tick (sort_key fst events) cq"
    and "events \<noteq> [] \<or> cq \<noteq> [] \<Longrightarrow>
      acid_max_tick (sort_key fst events) cq = Suc (Max (set (map ev_tick events) \<union> set (map fst cq)))"
proof -
  have set_eq: "set (map fst (sort_key fst events) @ map snd (char_ready_ticks cq)) =
      set (map ev_tick events) \<union> set (map fst cq)"
    by (simp add: char_ready_ticks_values [OF assms] ev_tick_fst)
  have ne: "(map fst (sort_key fst events) @ map snd (char_ready_ticks cq) = []) =
      (events = [] \<and> cq = [])"
    using char_ready_ticks_values [OF assms]
    by (metis append_is_Nil_conv length_sort map_is_Nil_conv length_0_conv)
  show m: "acid_max_tick (sort_key fst events) cq =
      Suc (Max (set (map ev_tick events) \<union> set (map fst cq)))"
    if "events \<noteq> [] \<or> cq \<noteq> []"
  proof -
    have "map fst (sort_key fst events) @ map snd (char_ready_ticks cq) \<noteq> []"
      using that ne by blast
    then have "py_max (map fst (sort_key fst events) @ map snd (char_ready_ticks cq)) =
        Max (set (map fst (sort_key fst events) @ map snd (char_ready_ticks cq)))"
      by (rule py_max_Max)
    then show ?thesis unfolding acid_max_tick_def set_eq by simp
  qed
  show "acid_max_tick (sort_key fst events) cq = Suc (py_max (map ev_tick events @ map fst cq))"
  proof (cases "events = [] \<and> cq = []")
    case True
    then show ?thesis by (simp add: acid_max_tick_def py_max_def char_ready_ticks_def)
  next
    case False
    then have "map ev_tick events @ map fst cq \<noteq> []" by simp
    then show ?thesis using m False py_max_Max [of "map ev_tick events @ map fst cq"] by simp
  qed
  show "e \<in> set events \<Longrightarrow> ev_tick e < acid_max_tick (sort_key fst events) cq"
    using py_max_upper [of "ev_tick e" "map fst (sort_key fst events) @ map snd (char_ready_ticks cq)"]
    by (simp add: acid_max_tick_def ev_tick_fst less_Suc_eq_le)
qed

lemma speed_max_tick_value:
  shows "speed_max_tick (sort_key fst events) cq = Suc (py_max (map ev_tick events @ map fst cq))"
    and "e \<in> set events \<Longrightarrow> ev_tick e < speed_max_tick (sort_key fst events) cq"
    and "events \<noteq> [] \<or> cq \<noteq> [] \<Longrightarrow>
      speed_max_tick (sort_key fst events) cq = Suc (Max (set (map ev_tick events) \<union> set (map fst cq)))"
proof -
  have set_eq: "set (map fst (sort_key fst events) @ map fst cq) =
      set (map ev_tick events) \<union> set (map fst cq)"
    by (simp add: ev_tick_fst)
  have ne: "(map fst (sort_key fst events) @ map fst cq = []) = (events = [] \<and> cq = [])"
    by (metis append_is_Nil_conv length_sort map_is_Nil_conv length_0_conv)
  show m: "speed_max_tick (sort_key fst events) cq =
      Suc (Max (set (map ev_tick events) \<union> set (map fst cq)))"
    if "events \<noteq> [] \<or> cq \<noteq> []"
  proof -
    have "map fst (sort_key fst events) @ map fst cq \<noteq> []"
      using that ne by blast
    then have "py_max (map fst (sort_key fst events) @ map fst cq) =
        Max (set (map fst (sort_key fst events) @ map fst cq))"
      by (rule py_max_Max)
    then show ?thesis unfolding speed_max_tick_def set_eq by simp
  qed
  show "speed_max_tick (sort_key fst events) cq = Suc (py_max (map ev_tick events @ map fst cq))"
  proof (cases "events = [] \<and> cq = []")
    case True
    then show ?thesis by (simp add: speed_max_tick_def py_max_def)
  next
    case False
    then have "map ev_tick events @ map fst cq \<noteq> []" by simp
    then show ?thesis using m False py_max_Max [of "map ev_tick events @ map fst cq"] by simp
  qed
  show "e \<in> set events \<Longrightarrow> ev_tick e < speed_max_tick (sort_key fst events) cq"
    using py_max_upper [of "ev_tick e" "map fst (sort_key fst events) @ map fst cq"]
    by (simp add: speed_max_tick_def ev_tick_fst less_Suc_eq_le)
qed

lemma run4:
  "concat (map (tick_trace acid_DEVICES
       [(0, ''BP909'', ''on'', 48, 100), (0, ''TB303'', ''cc'', 5, 127),
        (0, ''TB303'', ''on'', 48, 80), (1, ''BP909'', ''off'', 48, 0),
        (2, ''TB303'', ''cc'', 5, 0), (2, ''TB303'', ''off'', 48, 0)])
     [0..<acid_max_tick (sort_key fst
       [(0, ''BP909'', ''on'', 48, 100), (0, ''TB303'', ''cc'', 5, 127),
        (0, ''TB303'', ''on'', 48, 80), (1, ''BP909'', ''off'', 48, 0),
        (2, ''TB303'', ''cc'', 5, 0), (2, ''TB303'', ''off'', 48, 0)]) [(0, 0, CHR ''a'')] + 1]) =
   [Send ''BP909'' [144, 48, 100], Send ''TB303'' [176, 5, 127], Send ''TB303'' [144, 48, 80],
    Sleep 0, Send ''BP909'' [128, 48, 0], Sleep 1, Send ''TB303'' [176, 5, 0],
    Send ''TB303'' [128, 48, 0], Sleep 2, Sleep 3]"
  by code_simp

lemma known_simp [simp]:
  "known_devices devices ((t, d, a, v, p) # es) =
     (d \<in> set (map fst devices) \<and> known_devices devices es)"
  "known_devices devices [] = True"
  by (simp_all add: known_devices_def)

lemma known_append [simp]:
  "known_devices devices (xs @ ys) = (known_devices devices xs \<and> known_devices devices ys)"
  by (simp add: known_devices_def)

lemma acid_dev [simp]:
  "''TB303'' \<in> fst ` set acid_DEVICES" "''BP909'' \<in> fst ` set acid_DEVICES"
  "''PadSynth'' \<in> fst ` set acid_DEVICES"
  by (simp_all add: acid_DEVICES_def)

lemma acid_bass_known: "known_devices acid_DEVICES (fst (acid_bass R c t g))"
  by (simp add: acid_bass_def Let_def case_prod_beta)

lemma acid_drums_known: "known_devices acid_DEVICES (acid_drums i c t)"
  by (simp add: acid_drums_def Let_def)

lemma acid_pad_known: "known_devices acid_DEVICES (acid_pad t)"
  by (simp add: acid_pad_def PAD_CHORD_NOTES_def Let_def)

lemma acid_char_known: "known_devices acid_DEVICES (fst (acid_char R i ch t g))"
  by (simp add: acid_char_def Let_def case_prod_beta acid_bass_known acid_drums_known
      acid_pad_known)

lemma acid_emitted_known: "known_devices acid_DEVICES (acid_emitted R i str t g)"
proof (induction str arbitrary: i t g)
  case Nil
  then show ?case by simp
next
  case (Cons ch rest)
  show ?case
    using acid_char_known [of R i ch t g] by (simp add: Cons.IH case_prod_beta Let_def)
qed

lemma known_sort: "known_devices devices (sort xs) = known_devices devices xs"
  by (simp add: known_devices_def list_all_iff)

lemma acid_mapper_known:
  "known_devices acid_DEVICES (fst (fst (acid_text_to_event_queue R g0 str)))"
  by (simp add: acid_merged known_sort acid_emitted_known)

lemma speed_pad_known: "known_devices speed_DEVICES (fst (speed_pad R c t offsets g))"
  by (induction offsets arbitrary: g) (simp_all add: Let_def case_prod_beta speed_DEVICES_def)


lemma speed_dev [simp]:
  "''TB303'' \<in> fst ` set speed_DEVICES" "''BP909'' \<in> fst ` set speed_DEVICES"
  "''LeadSynth'' \<in> fst ` set speed_DEVICES" "''PadSynth'' \<in> fst ` set speed_DEVICES"
  "''Samples'' \<in> fst ` set speed_DEVICES"
  by (simp_all add: speed_DEVICES_def)

lemma speed_separator_known: "known_devices speed_DEVICES (fst (speed_separator R t g))"
  by (simp add: speed_separator_def Let_def case_prod_beta speed_pad_known)

lemma speed_bass_known: "known_devices speed_DEVICES (fst (speed_bass R c t g))"
  by (simp add: speed_bass_def Let_def case_prod_beta)

lemma speed_kick_hat_known: "known_devices speed_DEVICES (fst (speed_kick_hat R t g))"
  by (simp add: speed_kick_hat_def Let_def case_prod_beta)

lemma speed_drums_known: "known_devices speed_DEVICES (fst (speed_drums R i c t g))"
  by (simp add: speed_drums_def Let_def case_prod_beta)

lemma speed_lead_known: "known_devices speed_DEVICES (fst (speed_lead R c t g))"
  by (simp add: speed_lead_def Let_def case_prod_beta)

lemma speed_char_known: "known_devices speed_DEVICES (fst (speed_char R order i ch t g))"
  by (simp add: speed_char_def Let_def case_prod_beta speed_separator_known speed_bass_known
      speed_kick_hat_known speed_drums_known speed_lead_known)

lemma speed_emitted_known: "known_devices speed_DEVICES (speed_emitted R order i str t g)"
proof (induction str arbitrary: i t g)
  case Nil
  then show ?case by simp
next
  case (Cons ch rest)
  show ?case
    using speed_char_known [of R order i ch t g] by (simp add: Cons.IH case_prod_beta Let_def)
qed

lemma speed_mapper_known:
  "known_devices speed_DEVICES (fst (fst (speed_text_to_event_queue R order g0 str)))"
  by (simp add: speed_merged known_sort speed_emitted_known)

lemma acid_char_timing: "fst (snd (acid_char R i ch t g)) = [(t, i, ch)]"
  by (simp add: acid_char_def Let_def case_prod_beta)

lemma acid_loop_indices:
  "map (fst \<circ> snd) (fst (snd (acid_loop R i str (q, ct, t, g)))) =
     map (fst \<circ> snd) ct @ [i..<i + length str]"
proof (induction str arbitrary: i q ct t g)
  case Nil
  then show ?case by simp
next
  case (Cons ch rest)
  obtain pushed timing t1 g1 where c: "acid_char R i ch t g = (pushed, timing, t1, g1)"
    by (cases "acid_char R i ch t g") auto
  have tm: "timing = [(t, i, ch)]" using acid_char_timing [of R i ch t g] c by simp
  have "map (fst \<circ> snd)
      (fst (snd (acid_loop R (Suc i) rest (push_all q pushed, ct @ [(t, i, ch)], t1, g1)))) =
      map (fst \<circ> snd) (ct @ [(t, i, ch)]) @ [Suc i..<Suc i + length rest]"
    by (rule Cons.IH)
  then show ?case
    by (simp add: c tm upt_conv_Cons comp_def del: upt_Suc)
qed

lemma acid_mapper_indices:
  "map (fst \<circ> snd) (snd (fst (acid_text_to_event_queue R g0 str))) =
     [0..<length (snd (fst (acid_text_to_event_queue R g0 str)))]"
proof -
  obtain q ct t g where l: "acid_loop R 0 str ([], [], 0, rnd_seed R str) = (q, ct, t, g)"
    by (cases "acid_loop R 0 str ([], [], 0, rnd_seed R str)") auto
  have idx: "map (fst \<circ> snd) ct = [0..<length str]"
    using acid_loop_indices [of R 0 str "[]" "[]" 0 "rnd_seed R str"] l by simp
  then have len: "length ct = length str" by (metis length_map length_upt minus_nat.diff_0)
  have "sorted (map (\<lambda>x. fst (snd x)) ct)"
    using idx by (simp add: comp_def)
  then have "sort_key (\<lambda>x. fst (snd x)) ct = ct" by (rule sort_key_id_if_sorted)
  then show ?thesis
    using idx len by (simp add: acid_text_to_event_queue_def l comp_def)
qed

lemma tick_loop_quiet:
  assumes "quiet env"
  shows "(known_devices acid_DEVICES events \<and> map (fst \<circ> snd) cq = [0..<length cq] \<longrightarrow>
      (let max_tick = acid_max_tick (sort_key fst events) cq;
           r = acid_try env events cq
       in max_tick = Suc (py_max (map ev_tick events @ map fst cq)) \<and>
          (events \<noteq> [] \<or> cq \<noteq> [] \<longrightarrow>
             max_tick = Suc (Max (set (map ev_tick events) \<union> set (map fst cq)))) \<and>
          list_all (\<lambda>e. ev_tick e < max_tick) events \<and>
          fst r = None \<and>
          trace (snd r) = concat (map (tick_trace acid_DEVICES events) [0..<max_tick + 1]) \<and>
          sleeps (trace (snd r)) = [0..<max_tick + 1])) \<and>
   (known_devices speed_DEVICES events \<longrightarrow>
      (let max_tick = speed_max_tick (sort_key fst events) cq;
           r = speed_try env events cq
       in max_tick = Suc (py_max (map ev_tick events @ map fst cq)) \<and>
          (events \<noteq> [] \<or> cq \<noteq> [] \<longrightarrow>
             max_tick = Suc (Max (set (map ev_tick events) \<union> set (map fst cq)))) \<and>
          list_all (\<lambda>e. ev_tick e < max_tick) events \<and>
          fst r = None \<and>
          trace (snd r) = concat (map (tick_trace speed_DEVICES events) [0..<max_tick + 1]) \<and>
          sleeps (trace (snd r)) = [0..<max_tick + 1]))"
proof (intro conjI impI)
  assume a: "known_devices acid_DEVICES events \<and> map (fst \<circ> snd) cq = [0..<length cq]"
  then have d: "distinct (map (fst \<circ> snd) cq)" by simp
  have t: "fst (acid_try env events cq) = None \<and>
      trace (snd (acid_try env events cq)) =
        concat (map (tick_trace acid_DEVICES events)
                  [0..<Suc (acid_max_tick (sort_key fst events) cq)])"
    using acid_try_quiet [OF assms] a by blast
  show "let max_tick = acid_max_tick (sort_key fst events) cq;
           r = acid_try env events cq
       in max_tick = Suc (py_max (map ev_tick events @ map fst cq)) \<and>
          (events \<noteq> [] \<or> cq \<noteq> [] \<longrightarrow>
             max_tick = Suc (Max (set (map ev_tick events) \<union> set (map fst cq)))) \<and>
          list_all (\<lambda>e. ev_tick e < max_tick) events \<and>
          fst r = None \<and>
          trace (snd r) = concat (map (tick_trace acid_DEVICES events) [0..<max_tick + 1]) \<and>
          sleeps (trace (snd r)) = [0..<max_tick + 1]"
    unfolding Let_def
    using acid_max_tick_value [OF d, where events = events] t
    by (simp add: list_all_iff sleeps_ticks del: upt_Suc)
next
  assume a: "known_devices speed_DEVICES events"
  have t: "fst (speed_try env events cq) = None \<and>
      trace (snd (speed_try env events cq)) =
        concat (map (tick_trace speed_DEVICES events)
                  [0..<Suc (speed_max_tick (sort_key fst events) cq)])"
    using speed_try_quiet [OF assms a] by blast
  show "let max_tick = speed_max_tick (sort_key fst events) cq;
           r = speed_try env events cq
       in max_tick = Suc (py_max (map ev_tick events @ map fst cq)) \<and>
          (events \<noteq> [] \<or> cq \<noteq> [] \<longrightarrow>
             max_tick = Suc (Max (set (map ev_tick events) \<union> set (map fst cq)))) \<and>
          list_all (\<lambda>e. ev_tick e < max_tick) events \<and>
          fst r = None \<and>
          trace (snd r) = concat (map (tick_trace speed_DEVICES events) [0..<max_tick + 1]) \<and>
          sleeps (trace (snd r)) = [0..<max_tick + 1]"
    unfolding Let_def
    using speed_max_tick_value [where events = events and cq = cq] t
    by (simp add: list_all_iff sleeps_ticks del: upt_Suc)
qed

text \<open>
  C5. When no send fails and no interrupt arrives, for events on devices of \<open>DEVICES\<close>
  (and, in acid2midi.py, a character list with the positions 0, 1, 2, ... as the mapper
  returns it): \<open>max_tick\<close> is one more than the highest tick among the events and the
  character list; no exception leaves the loop; the loop sleeps once for each tick from 0
  to \<open>max_tick\<close>, both included; and the trace is, tick after tick, the messages of the
  events of that tick in the order of the event list, followed by the sleep of that tick.
  Every event has a tick below \<open>max_tick\<close>, so it is dispatched in exactly one of these
  ticks. What the text mappers return meets the two conditions.
\<close>

theorem tick_loop_dispatches_due_events_in_order:
  assumes "quiet env"
  shows "(known_devices acid_DEVICES events \<and> map (fst \<circ> snd) cq = [0..<length cq] \<longrightarrow>
      (let max_tick = acid_max_tick (sort_key fst events) cq;
           r = acid_try env events cq
       in max_tick = Suc (py_max (map ev_tick events @ map fst cq)) \<and>
          (events \<noteq> [] \<or> cq \<noteq> [] \<longrightarrow>
             max_tick = Suc (Max (set (map ev_tick events) \<union> set (map fst cq)))) \<and>
          list_all (\<lambda>e. ev_tick e < max_tick) events \<and>
          fst r = None \<and>
          trace (snd r) = concat (map (tick_trace acid_DEVICES events) [0..<max_tick + 1]) \<and>
          sleeps (trace (snd r)) = [0..<max_tick + 1])) \<and>
   (known_devices speed_DEVICES events \<longrightarrow>
      (let max_tick = speed_max_tick (sort_key fst events) cq;
           r = speed_try env events cq
       in max_tick = Suc (py_max (map ev_tick events @ map fst cq)) \<and>
          (events \<noteq> [] \<or> cq \<noteq> [] \<longrightarrow>
             max_tick = Suc (Max (set (map ev_tick events) \<union> set (map fst cq)))) \<and>
          list_all (\<lambda>e. ev_tick e < max_tick) events \<and>
          fst r = None \<and>
          trace (snd r) = concat (map (tick_trace speed_DEVICES events) [0..<max_tick + 1]) \<and>
          sleeps (trace (snd r)) = [0..<max_tick + 1])) \<and>
   known_devices acid_DEVICES (fst (fst (acid_text_to_event_queue R g0 str))) \<and>
   map (fst \<circ> snd) (snd (fst (acid_text_to_event_queue R g0 str))) =
     [0..<length (snd (fst (acid_text_to_event_queue R g0 str)))] \<and>
   known_devices speed_DEVICES (fst (fst (speed_text_to_event_queue R order g0 str)))"
  using tick_loop_quiet [OF assms, of events cq] acid_mapper_known [of R g0 str]
    acid_mapper_indices [of R g0 str] speed_mapper_known [of R order g0 str]
  by blast

theorem tick_loop_dispatches_due_events_in_order_witness:
  "quiet quiet_env \<and>
   known_devices acid_DEVICES
     [(0, ''BP909'', ''on'', 48, 100), (0, ''TB303'', ''cc'', 5, 127),
      (0, ''TB303'', ''on'', 48, 80), (1, ''BP909'', ''off'', 48, 0),
      (2, ''TB303'', ''cc'', 5, 0), (2, ''TB303'', ''off'', 48, 0)] \<and>
   map (fst \<circ> snd) [(0 :: nat, 0 :: nat, CHR ''a'')] = [0..<length [(0 :: nat, 0 :: nat, CHR ''a'')]] \<and>
   trace (snd (acid_try quiet_env
     [(0, ''BP909'', ''on'', 48, 100), (0, ''TB303'', ''cc'', 5, 127),
      (0, ''TB303'', ''on'', 48, 80), (1, ''BP909'', ''off'', 48, 0),
      (2, ''TB303'', ''cc'', 5, 0), (2, ''TB303'', ''off'', 48, 0)] [(0, 0, CHR ''a'')])) =
   [Send ''BP909'' [144, 48, 100], Send ''TB303'' [176, 5, 127], Send ''TB303'' [144, 48, 80],
    Sleep 0, Send ''BP909'' [128, 48, 0], Sleep 1, Send ''TB303'' [176, 5, 0],
    Send ''TB303'' [128, 48, 0], Sleep 2, Sleep 3]"
proof -
  let ?E = "[(0, ''BP909'', ''on'', 48, 100), (0, ''TB303'', ''cc'', 5, 127),
      (0, ''TB303'', ''on'', 48, 80), (1, ''BP909'', ''off'', 48, 0),
      (2, ''TB303'', ''cc'', 5, 0), (2, ''TB303'', ''off'', 48, 0)] :: event list"
  let ?cq = "[(0, 0, CHR ''a'')] :: char_entry list"
  have k: "known_devices acid_DEVICES ?E"
    by (simp add: known_devices_def acid_DEVICES_def ev_device_def)
  have w: "map (fst \<circ> snd) ?cq = [0..<length ?cq]" by simp
  have "trace (snd (acid_try quiet_env ?E ?cq)) =
      concat (map (tick_trace acid_DEVICES ?E)
        [0..<acid_max_tick (sort_key fst ?E) ?cq + 1])"
    using tick_loop_dispatches_due_events_in_order [OF quiet_quiet_env, of ?E ?cq,
        THEN conjunct1, THEN mp, OF conjI [OF k w]]
    unfolding Let_def by blast
  then have "trace (snd (acid_try quiet_env ?E ?cq)) =
      [Send ''BP909'' [144, 48, 100], Send ''TB303'' [176, 5, 127], Send ''TB303'' [144, 48, 80],
       Sleep 0, Send ''BP909'' [128, 48, 0], Sleep 1, Send ''TB303'' [176, 5, 0],
       Send ''TB303'' [128, 48, 0], Sleep 2, Sleep 3]"
    unfolding run4 .
  then show ?thesis using quiet_quiet_env k w by blast
qed

end
